theory Spec2Isabelle
  imports Complex_Main
begin

section \<open>JavaScript strings\<close>

text \<open>
  A JavaScript string is a sequence of UTF-16 code units. A code unit is modelled as a
  natural number, a string as the list of its code units; \<open>js\<close> embeds an ASCII literal.
  Indices, \<open>length\<close>, \<open>substring\<close>, \<open>slice\<close>, \<open>lastIndexOf\<close> and \<open>endsWith\<close>
  count code units, as the source's string type does.
\<close>

type_synonym jsstring = "nat list"

definition js :: "string \<Rightarrow> jsstring" where
  "js s = map of_char s"

abbreviation QUOTE :: nat where "QUOTE \<equiv> 34"
abbreviation BACKSLASH :: nat where "BACKSLASH \<equiv> 92"
abbreviation LBRACE :: nat where "LBRACE \<equiv> 123"
abbreviation RBRACE :: nat where "RBRACE \<equiv> 125"
abbreviation LBRACKET :: nat where "LBRACKET \<equiv> 91"
abbreviation RBRACKET :: nat where "RBRACKET \<equiv> 93"
abbreviation COMMA :: nat where "COMMA \<equiv> 44"
abbreviation COLON :: nat where "COLON \<equiv> 58"

text \<open>
  \<open>String.prototype.trim\<close> removes WhiteSpace and LineTerminator code units from both
  ends: TAB, LF, VT, FF, CR, SP, NBSP, U+1680, U+2000..U+200A, U+2028, U+2029, U+202F,
  U+205F, U+3000 and U+FEFF.
\<close>

definition isTrimSpace :: "nat \<Rightarrow> bool" where
  "isTrimSpace c \<longleftrightarrow>
     c = 9 \<or> c = 10 \<or> c = 11 \<or> c = 12 \<or> c = 13 \<or> c = 32 \<or> c = 160 \<or> c = 5760 \<or>
     (8192 \<le> c \<and> c \<le> 8202) \<or> c = 8232 \<or> c = 8233 \<or> c = 8239 \<or> c = 8287 \<or>
     c = 12288 \<or> c = 65279"

definition trim :: "jsstring \<Rightarrow> jsstring" where
  "trim s = rev (dropWhile isTrimSpace (rev (dropWhile isTrimSpace s)))"

text \<open>\<open>s.endsWith(c)\<close> for a one-character string \<open>c\<close>.\<close>

definition endsWith :: "jsstring \<Rightarrow> nat \<Rightarrow> bool" where
  "endsWith s c \<longleftrightarrow> s \<noteq> [] \<and> last s = c"

text \<open>\<open>s.lastIndexOf(c)\<close> for a one-character string \<open>c\<close>: \<open>-1\<close> when \<open>c\<close> does not occur.\<close>

definition lastIndexOf :: "jsstring \<Rightarrow> nat \<Rightarrow> int" where
  "lastIndexOf s c =
     (if c \<in> set s then int (length s) - 1 - int (length (takeWhile (\<lambda>x. x \<noteq> c) (rev s)))
      else - 1)"

text \<open>\<open>(s.match(/"/g) || []).length\<close>: the number of double-quote characters, escaped or not.\<close>

definition quoteCount :: "jsstring \<Rightarrow> nat" where
  "quoteCount s = length (filter (\<lambda>c. c = QUOTE) s)"

text \<open>\<open>s.slice(0, i) + '"' + s.slice(i)\<close>, for \<open>0 \<le> i\<close>.\<close>

definition insertQuote :: "jsstring \<Rightarrow> nat \<Rightarrow> jsstring" where
  "insertQuote s i = take i s @ [QUOTE] @ drop i s"

section \<open>JSON values and \<open>JSON.parse\<close>\<close>

text \<open>
  The value \<open>JSON.parse\<close> returns. A number is kept as its literal, and \<open>numberValue\<close>
  below gives the double the literal denotes; an object is the list of its properties in
  the order of the text, without duplicate names (the engine lists names that are array
  indices first; nothing here depends on the order).
\<close>

datatype json =
    JNull
  | JBool bool
  | JNumber jsstring
  | JString jsstring
  | JArray "json list"
  | JObject "(jsstring \<times> json) list"

datatype token =
    TLBrace | TRBrace | TLBracket | TRBracket | TColon | TComma
  | TString jsstring | TNumber jsstring | TTrue | TFalse | TNull

text \<open>JSON white space: TAB, LF, CR and SP only.\<close>

definition isJsonSpace :: "nat \<Rightarrow> bool" where
  "isJsonSpace c \<longleftrightarrow> c = 9 \<or> c = 10 \<or> c = 13 \<or> c = 32"

definition isDigit :: "nat \<Rightarrow> bool" where
  "isDigit c \<longleftrightarrow> 48 \<le> c \<and> c \<le> 57"

definition hexValue :: "nat \<Rightarrow> nat option" where
  "hexValue c =
     (if 48 \<le> c \<and> c \<le> 57 then Some (c - 48)
      else if 65 \<le> c \<and> c \<le> 70 then Some (c - 55)
      else if 97 \<le> c \<and> c \<le> 102 then Some (c - 87)
      else None)"

text \<open>The character a single-character escape \<open>\c\<close> denotes.\<close>

definition unescape :: "nat \<Rightarrow> nat option" where
  "unescape c =
     (if c = QUOTE then Some QUOTE
      else if c = BACKSLASH then Some BACKSLASH
      else if c = 47 then Some 47
      else if c = 98 then Some 8
      else if c = 102 then Some 12
      else if c = 110 then Some 10
      else if c = 114 then Some 13
      else if c = 116 then Some 9
      else None)"

text \<open>The code unit four hexadecimal digits denote.\<close>

definition hex4 :: "jsstring \<Rightarrow> nat option" where
  "hex4 ds =
     (case map hexValue ds of
        [Some h3, Some h2, Some h1, Some h0] \<Rightarrow> Some (4096 * h3 + 256 * h2 + 16 * h1 + h0)
      | _ \<Rightarrow> None)"

text \<open>
  The characters of a string literal after its opening quote: the decoded string and the
  input after the closing quote. Control characters below U+0020 are not allowed.
\<close>

fun lexString :: "jsstring \<Rightarrow> (jsstring \<times> jsstring) option" where
  "lexString [] = None"
| "lexString (c # cs) =
     (if c = QUOTE then Some ([], cs)
      else if c = BACKSLASH then
        (case cs of
           [] \<Rightarrow> None
         | e # cs' \<Rightarrow>
             if e = 117 then
               (case hex4 (take 4 cs') of
                  None \<Rightarrow> None
                | Some u \<Rightarrow> map_option (\<lambda>(s, r). (u # s, r)) (lexString (drop 4 cs')))
             else
               (case unescape e of
                  None \<Rightarrow> None
                | Some u \<Rightarrow> map_option (\<lambda>(s, r). (u # s, r)) (lexString cs')))
      else if c < 32 then None
      else map_option (\<lambda>(s, r). (c # s, r)) (lexString cs))"

text \<open>
  A number literal \<open>-? (0 | [1-9][0-9]*) (. [0-9]+)? ([eE] [+-]? [0-9]+)?\<close> at the head
  of the input: the literal and the input after it.
\<close>

definition lexInt :: "jsstring \<Rightarrow> (jsstring \<times> jsstring) option" where
  "lexInt s =
     (case s of
        [] \<Rightarrow> None
      | c # cs \<Rightarrow>
          if c = 48 then Some ([c], cs)
          else if isDigit c then Some (c # takeWhile isDigit cs, dropWhile isDigit cs)
          else None)"

definition lexFrac :: "jsstring \<Rightarrow> (jsstring \<times> jsstring) option" where
  "lexFrac s =
     (case s of
        c # cs \<Rightarrow>
          if c = 46 then
            (if takeWhile isDigit cs = [] then None
             else Some (c # takeWhile isDigit cs, dropWhile isDigit cs))
          else Some ([], s)
      | [] \<Rightarrow> Some ([], s))"

definition lexExpDigits :: "jsstring \<Rightarrow> jsstring \<Rightarrow> (jsstring \<times> jsstring) option" where
  "lexExpDigits pre s =
     (if takeWhile isDigit s = [] then None
      else Some (pre @ takeWhile isDigit s, dropWhile isDigit s))"

definition lexExp :: "jsstring \<Rightarrow> (jsstring \<times> jsstring) option" where
  "lexExp s =
     (case s of
        c # cs \<Rightarrow>
          if c = 101 \<or> c = 69 then
            (case cs of
               g # cs' \<Rightarrow>
                 if g = 43 \<or> g = 45 then lexExpDigits [c, g] cs' else lexExpDigits [c] cs
             | [] \<Rightarrow> None)
          else Some ([], s)
      | [] \<Rightarrow> Some ([], s))"

definition lexUnsigned :: "jsstring \<Rightarrow> (jsstring \<times> jsstring) option" where
  "lexUnsigned s =
     (case lexInt s of
        None \<Rightarrow> None
      | Some (i, r1) \<Rightarrow>
          (case lexFrac r1 of
             None \<Rightarrow> None
           | Some (f, r2) \<Rightarrow>
               (case lexExp r2 of
                  None \<Rightarrow> None
                | Some (e, r3) \<Rightarrow> Some (i @ f @ e, r3))))"

definition lexNumber :: "jsstring \<Rightarrow> (jsstring \<times> jsstring) option" where
  "lexNumber s =
     (case s of
        [] \<Rightarrow> None
      | c # cs \<Rightarrow>
          if c = 45 then map_option (\<lambda>(n, r). (c # n, r)) (lexUnsigned cs)
          else lexUnsigned s)"

text \<open>One token at the head of an input that does not start with white space.\<close>

definition lexToken :: "jsstring \<Rightarrow> (token \<times> jsstring) option" where
  "lexToken s =
     (case s of
        [] \<Rightarrow> None
      | c # cs \<Rightarrow>
          if c = LBRACE then Some (TLBrace, cs)
          else if c = RBRACE then Some (TRBrace, cs)
          else if c = LBRACKET then Some (TLBracket, cs)
          else if c = RBRACKET then Some (TRBracket, cs)
          else if c = COLON then Some (TColon, cs)
          else if c = COMMA then Some (TComma, cs)
          else if c = QUOTE then map_option (\<lambda>(t, r). (TString t, r)) (lexString cs)
          else if c = 45 \<or> isDigit c then map_option (\<lambda>(n, r). (TNumber n, r)) (lexNumber s)
          else if take 4 s = js ''true'' then Some (TTrue, drop 4 s)
          else if take 5 s = js ''false'' then Some (TFalse, drop 5 s)
          else if take 4 s = js ''null'' then Some (TNull, drop 4 s)
          else None)"

lemma lexString_shorter: "lexString s = Some (t, r) \<Longrightarrow> length r < length s"
proof (induction s arbitrary: t r rule: lexString.induct)
  case 1
  then show ?case by simp
next
  case (2 c cs)
  then show ?case
    by (fastforce split: if_splits list.splits option.splits)
qed

lemma lexUnsigned_shorter: "lexUnsigned s = Some (n, r) \<Longrightarrow> length r < length s"
proof -
  have d: "\<And>xs :: jsstring. length (dropWhile isDigit xs) \<le> length xs"
    by (simp add: length_dropWhile_le)
  assume a: "lexUnsigned s = Some (n, r)"
  then obtain i r1 f r2 e where
    i: "lexInt s = Some (i, r1)" and f: "lexFrac r1 = Some (f, r2)" and e: "lexExp r2 = Some (e, r)"
    by (auto simp: lexUnsigned_def split: option.splits)
  from i have "length r1 < length s"
    using d by (auto simp: lexInt_def less_Suc_eq_le split: list.splits if_splits)
  moreover from f have "length r2 \<le> length r1"
    using d by (auto simp: lexFrac_def le_Suc_eq split: list.splits if_splits)
  moreover from e have "length r \<le> length r2"
    using d by (auto simp: lexExp_def lexExpDigits_def le_Suc_eq split: list.splits if_splits)
  ultimately show ?thesis by simp
qed

lemma lexNumber_shorter: "lexNumber s = Some (n, r) \<Longrightarrow> length r < length s"
  by (auto simp: lexNumber_def less_Suc_eq dest!: lexUnsigned_shorter split: list.splits if_splits)

lemma lexToken_shorter: "lexToken s = Some (t, r) \<Longrightarrow> length r < length s"
  by (auto simp: lexToken_def dest!: lexString_shorter lexNumber_shorter
      split: list.splits if_splits)

text \<open>The tokens of a text; \<open>None\<close> when some part of it is no token.\<close>

function tokenize :: "jsstring \<Rightarrow> token list option" where
  "tokenize [] = Some []"
| "tokenize (c # cs) =
     (if isJsonSpace c then tokenize cs
      else
        (case lexToken (c # cs) of
           None \<Rightarrow> None
         | Some (t, r) \<Rightarrow> map_option (\<lambda>ts. t # ts) (tokenize r)))"
  by pat_completeness auto
termination
  by (relation "measure length") (auto dest: lexToken_shorter)

text \<open>
  Defining a property of an object: a repeated name keeps its place and takes the later
  value, as \<open>JSON.parse\<close> and an assignment \<open>o.k = v\<close> do.
\<close>

fun objSet :: "(jsstring \<times> json) list \<Rightarrow> jsstring \<Rightarrow> json \<Rightarrow> (jsstring \<times> json) list" where
  "objSet [] k v = [(k, v)]"
| "objSet ((k', v') # ms) k v = (if k' = k then (k, v) # ms else (k', v') # objSet ms k v)"

text \<open>
  The parser is a stack automaton over the tokens. A frame is an open array with the
  elements read so far, an open object with its properties, or an open object that has
  read a name and waits for the value.
\<close>

datatype frame =
    ArrF "json list"
  | ObjF "(jsstring \<times> json) list"
  | ObjK "(jsstring \<times> json) list" jsstring

datatype expect =
    ExpValue
  | ExpValueOrClose
  | ExpKey
  | ExpKeyOrClose
  | ExpColon
  | ExpCommaOrClose
  | Finished json

text \<open>A complete value \<open>v\<close> goes into the innermost open frame.\<close>

fun pushValue :: "json \<Rightarrow> frame list \<Rightarrow> (expect \<times> frame list) option" where
  "pushValue v [] = Some (Finished v, [])"
| "pushValue v (ArrF xs # st) = Some (ExpCommaOrClose, ArrF (xs @ [v]) # st)"
| "pushValue v (ObjK ms k # st) = Some (ExpCommaOrClose, ObjF (objSet ms k v) # st)"
| "pushValue v (ObjF ms # st) = None"

fun startValue :: "token \<Rightarrow> frame list \<Rightarrow> (expect \<times> frame list) option" where
  "startValue TLBrace st = Some (ExpKeyOrClose, ObjF [] # st)"
| "startValue TLBracket st = Some (ExpValueOrClose, ArrF [] # st)"
| "startValue (TString s) st = pushValue (JString s) st"
| "startValue (TNumber n) st = pushValue (JNumber n) st"
| "startValue TTrue st = pushValue (JBool True) st"
| "startValue TFalse st = pushValue (JBool False) st"
| "startValue TNull st = pushValue JNull st"
| "startValue _ st = None"

fun parseStep :: "expect \<Rightarrow> frame list \<Rightarrow> token \<Rightarrow> (expect \<times> frame list) option" where
  "parseStep ExpValue st t = startValue t st"
| "parseStep ExpValueOrClose (ArrF xs # st) TRBracket = pushValue (JArray xs) st"
| "parseStep ExpValueOrClose st t = startValue t st"
| "parseStep ExpKey (ObjF ms # st) (TString k) = Some (ExpColon, ObjK ms k # st)"
| "parseStep ExpKeyOrClose (ObjF ms # st) (TString k) = Some (ExpColon, ObjK ms k # st)"
| "parseStep ExpKeyOrClose (ObjF ms # st) TRBrace = pushValue (JObject ms) st"
| "parseStep ExpColon st TColon = Some (ExpValue, st)"
| "parseStep ExpCommaOrClose (ArrF xs # st) TComma = Some (ExpValue, ArrF xs # st)"
| "parseStep ExpCommaOrClose (ArrF xs # st) TRBracket = pushValue (JArray xs) st"
| "parseStep ExpCommaOrClose (ObjF ms # st) TComma = Some (ExpKey, ObjF ms # st)"
| "parseStep ExpCommaOrClose (ObjF ms # st) TRBrace = pushValue (JObject ms) st"
| "parseStep _ _ _ = None"

fun parseTokens :: "expect \<Rightarrow> frame list \<Rightarrow> token list \<Rightarrow> json option" where
  "parseTokens (Finished v) [] [] = Some v"
| "parseTokens e st [] = None"
| "parseTokens e st (t # ts) =
     (case parseStep e st t of
        None \<Rightarrow> None
      | Some (e', st') \<Rightarrow> parseTokens e' st' ts)"

text \<open>\<open>JSON.parse(s)\<close>: \<open>None\<close> stands for the \<open>SyntaxError\<close> it throws.\<close>

definition JSON_parse :: "jsstring \<Rightarrow> json option" where
  "JSON_parse s =
     (case tokenize s of
        None \<Rightarrow> None
      | Some ts \<Rightarrow> parseTokens ExpValue [] ts)"

section \<open>The JSON repair engine\<close>

subsection \<open>\<open>fixUnterminatedStrings\<close>\<close>

text \<open>
  The state of the scan over the characters: \<open>inString\<close>, \<open>escapeNext\<close>, \<open>stringStart\<close>
  (\<open>-1\<close> before the first quote) and the stack of the positions of open quotes (its head
  is the top).
\<close>

record scan_state =
  inString :: bool
  escapeNext :: bool
  stringStart :: int
  stack :: "nat list"

definition scanInit :: scan_state where
  "scanInit = \<lparr>inString = False, escapeNext = False, stringStart = - 1, stack = []\<rparr>"

text \<open>One round of the \<open>for\<close> loop, at index \<open>i\<close> with character \<open>c\<close>.\<close>

definition scanStep :: "nat \<Rightarrow> nat \<Rightarrow> scan_state \<Rightarrow> scan_state" where
  "scanStep i c st =
     (if escapeNext st then st\<lparr>escapeNext := False\<rparr>
      else if c = BACKSLASH then st\<lparr>escapeNext := True\<rparr>
      else if c = QUOTE then
        (if inString st then st\<lparr>inString := False, stack := tl (stack st)\<rparr>
         else st\<lparr>inString := True, stringStart := int i, stack := i # stack st\<rparr>)
      else st)"

fun scanQuotes :: "nat \<Rightarrow> jsstring \<Rightarrow> scan_state \<Rightarrow> scan_state" where
  "scanQuotes i [] st = st"
| "scanQuotes i (c # cs) st = scanQuotes (Suc i) cs (scanStep i c st)"

text \<open>
  The backslashes that stand immediately before a position: the loop
  \<open>while (checkPos >= stringStart && result[checkPos] === '\\')\<close>, started at \<open>checkPos\<close>.
\<close>

fun countBackslashes :: "jsstring \<Rightarrow> nat \<Rightarrow> nat \<Rightarrow> nat" where
  "countBackslashes r start 0 = (if start = 0 \<and> r ! 0 = BACKSLASH then 1 else 0)"
| "countBackslashes r start (Suc k) =
     (if start \<le> Suc k \<and> r ! Suc k = BACKSLASH then Suc (countBackslashes r start k) else 0)"

text \<open>
  The \<open>while (insertPos < result.length && insertPos <= lastValidPos)\<close> loop: the first
  position from \<open>insertPos\<close> on that holds \<open>,\<close>, \<open>}\<close> or \<open>]\<close> after an even number of
  backslashes; \<open>None\<close> when the loop ends with \<open>foundInsertPos\<close> still false. The loop
  starts at \<open>stringStart + 1\<close>, so \<open>insertPos - 1\<close> is never negative.
\<close>

function findInsertPos :: "jsstring \<Rightarrow> nat \<Rightarrow> nat \<Rightarrow> nat \<Rightarrow> nat option" where
  "findInsertPos r start lastValidPos insertPos =
     (if insertPos < length r \<and> insertPos \<le> lastValidPos then
        (if (r ! insertPos = COMMA \<or> r ! insertPos = RBRACE \<or> r ! insertPos = RBRACKET)
            \<and> \<not> odd (countBackslashes r start (insertPos - 1))
         then Some insertPos
         else findInsertPos r start lastValidPos (Suc insertPos))
      else None)"
  by pat_completeness auto
termination
  by (relation "measure (\<lambda>(r, start, lastValidPos, insertPos). length r - insertPos)") auto

declare findInsertPos.simps [simp del]

definition fixUnterminatedStrings :: "jsstring \<Rightarrow> jsstring" where
  "fixUnterminatedStrings jsonString =
     (let st = scanQuotes 0 jsonString scanInit in
      if inString st \<and> 0 \<le> stringStart st then
        (let lastBrace = lastIndexOf jsonString RBRACE;
             lastBracket = lastIndexOf jsonString RBRACKET;
             lastValidPos = max (max lastBrace lastBracket) 0
         in if stringStart st < lastValidPos then
              (case findInsertPos jsonString (nat (stringStart st)) (nat lastValidPos)
                      (nat (stringStart st) + 1) of
                 Some insertPos \<Rightarrow> insertQuote jsonString insertPos
               | None \<Rightarrow>
                   if stringStart st < lastValidPos
                   then insertQuote jsonString (nat lastValidPos)
                   else jsonString)
            else jsonString @ [QUOTE])
      else jsonString)"

subsection \<open>\<open>parseAndRepairJSON\<close>\<close>

text \<open>The errors the pipeline throws, one constructor for each \<open>throw\<close> of the source.\<close>

datatype error =
    IncompleteJSON
      \<comment> \<open>\<open>Model returned incomplete JSON (not closed, could not repair)\<close>\<close>
  | MalformedJSON
      \<comment> \<open>\<open>Model returned malformed JSON (unbalanced quotes, could not fix)\<close>\<close>
  | InvalidJSON
      \<comment> \<open>\<open>Model returned invalid JSON that could not be repaired. Original: ...\<close>\<close>
  | NoResponse
      \<comment> \<open>\<open>No response from OpenAI\<close>\<close>
  | MissingPlayersArray
      \<comment> \<open>\<open>Invalid response structure: missing players array\<close>\<close>
  | BatchCountMismatch nat int
      \<comment> \<open>\<open>AI generated n players but k were requested for this batch\<close>\<close>
  | TotalCountMismatch nat int
      \<comment> \<open>\<open>AI generated n players instead of k\<close>\<close>
  | TypeError
      \<comment> \<open>a property read or written on \<open>null\<close>, \<open>undefined\<close> or (written) a primitive\<close>
  | ServiceError jsstring
      \<comment> \<open>an error thrown by a collaborator, with its message\<close>

text \<open>
  The backward \<open>for\<close> loop of the bracket-balance branch. The list holds the characters
  not yet visited, last first, so the character visited has index \<open>length rest\<close>. The
  result is the two counters and \<open>lastValidPos\<close> when the loop left through \<open>break\<close>.
\<close>

fun balanceScan :: "jsstring \<Rightarrow> int \<Rightarrow> int \<Rightarrow> int \<times> int \<times> nat option" where
  "balanceScan [] openBraces openBrackets = (openBraces, openBrackets, None)"
| "balanceScan (c # rest) openBraces openBrackets =
     (let openBraces' = (if c = RBRACE then openBraces + 1
                         else if c = LBRACE then openBraces - 1 else openBraces);
          openBrackets' = (if c = RBRACE \<or> c = LBRACE then openBrackets
                           else if c = RBRACKET then openBrackets + 1
                           else if c = LBRACKET then openBrackets - 1 else openBrackets)
      in if openBraces' < 0 \<or> openBrackets' < 0
         then (openBraces', openBrackets', Some (length rest + 1))
         else balanceScan rest openBraces' openBrackets')"

text \<open>The text the bracket-balance branch assigns to \<open>trimmed\<close>.\<close>

definition balanceRepair :: "jsstring \<Rightarrow> jsstring" where
  "balanceRepair trimmed =
     (case balanceScan (rev trimmed) 0 0 of
        (openBraces, openBrackets, brk) \<Rightarrow>
          (let lastValidPos = (case brk of None \<Rightarrow> length trimmed | Some p \<Rightarrow> p);
               closing = (if 0 < openBraces then replicate (nat openBraces) RBRACE else [])
                         @ (if 0 < openBrackets then replicate (nat openBrackets) RBRACKET else [])
           in take lastValidPos trimmed @ closing))"

text \<open>The first part: what \<open>trimmed\<close> is after the \<open>if (!trimmed.endsWith('}'))\<close> block.\<close>

definition closeObject :: "jsstring \<Rightarrow> error + jsstring" where
  "closeObject trimmed =
     (if \<not> endsWith trimmed RBRACE then
        (let lastBrace = lastIndexOf trimmed RBRACE;
             trimmed' =
               (if 0 < lastBrace then
                  (let beforeLastBrace = take (nat (lastBrace + 1)) trimmed in
                   if even (quoteCount beforeLastBrace) then beforeLastBrace
                   else fixUnterminatedStrings beforeLastBrace)
                else balanceRepair trimmed)
         in if \<not> endsWith trimmed' RBRACE then Inl IncompleteJSON else Inr trimmed')
      else Inr trimmed)"

text \<open>The second part: the check of the quote count.\<close>

definition balanceQuotes :: "jsstring \<Rightarrow> error + jsstring" where
  "balanceQuotes trimmed =
     (if odd (quoteCount trimmed) then
        (let fixed = fixUnterminatedStrings trimmed in
         if even (quoteCount fixed) then Inr fixed else Inl MalformedJSON)
      else Inr trimmed)"

text \<open>The third part: \<open>JSON.parse\<close>, and once more after \<open>fixUnterminatedStrings\<close>.\<close>

definition parseWithRetry :: "jsstring \<Rightarrow> error + json" where
  "parseWithRetry trimmed =
     (case JSON_parse trimmed of
        Some v \<Rightarrow> Inr v
      | None \<Rightarrow>
          (case JSON_parse (fixUnterminatedStrings trimmed) of
             Some v \<Rightarrow> Inr v
           | None \<Rightarrow> Inl InvalidJSON))"

definition parseAndRepairJSON :: "jsstring \<Rightarrow> error + json" where
  "parseAndRepairJSON response =
     (case closeObject (trim response) of
        Inl e \<Rightarrow> Inl e
      | Inr t1 \<Rightarrow>
          (case balanceQuotes t1 of
             Inl e \<Rightarrow> Inl e
           | Inr t2 \<Rightarrow> parseWithRetry t2))"

section \<open>JavaScript values in the pipeline\<close>

text \<open>
  Every value the handler reads from a model response is a value \<open>JSON.parse\<close> returned.
  \<open>undefined\<close> (a missing property) is \<open>None\<close> of \<open>json option\<close>.
\<close>

text \<open>
  A number is an IEEE 754 double: a finite one is a rational \<open>m * 2 ^ e\<close> with
  \<open>\<bar>m\<bar> < 2 ^ 53\<close> and \<open>- 1074 \<le> e \<le> 971\<close>. The two zeros are one value here: the pipeline
  tests numbers for truthiness, subtracts and compares them, and none of these tells
  \<open>-0\<close> from \<open>0\<close>.
\<close>

datatype number =
    Finite rat
  | PosInfinity
  | NegInfinity
  | NaN

text \<open>The nearest whole number, the even one of two that are equally near.\<close>

definition roundHalfEven :: "rat \<Rightarrow> int" where
  "roundHalfEven x =
     (let f = \<lfloor>x\<rfloor>; d = x - of_int f
      in if d < 1 / 2 then f else if 1 / 2 < d then f + 1 else if even f then f else f + 1)"

text \<open>The whole number \<open>k\<close> with \<open>2 ^ k \<le> x < 2 ^ (k + 1)\<close>, for \<open>0 < x\<close>.\<close>

function binaryExponent :: "rat \<Rightarrow> int" where
  "binaryExponent x =
     (if x \<le> 0 then 0
      else if 2 \<le> x then binaryExponent (x / 2) + 1
      else if x < 1 then binaryExponent (2 * x) - 1
      else 0)"
  by pat_completeness auto
termination
proof (relation "measure (\<lambda>x. 2 * nat \<lceil>1 / x\<rceil> + nat \<lceil>x\<rceil>)")
  show "wf (measure (\<lambda>x::rat. 2 * nat \<lceil>1 / x\<rceil> + nat \<lceil>x\<rceil>))" by simp
next
  fix x :: rat
  assume a: "\<not> x \<le> 0" "2 \<le> x"
  have "1 / x \<le> 1" "0 < 1 / x" "1 / (x / 2) \<le> 1" "0 < 1 / (x / 2)"
    using a by (simp_all add: field_simps)
  then have c: "\<lceil>1 / x\<rceil> = 1" "\<lceil>1 / (x / 2)\<rceil> = 1" by (simp_all add: ceiling_eq_iff)
  have "x / 2 \<le> x - 1" using a by simp
  then have "\<lceil>x / 2\<rceil> \<le> \<lceil>x - 1\<rceil>" by (rule ceiling_mono)
  then have "\<lceil>x / 2\<rceil> < \<lceil>x\<rceil>" by simp
  moreover have "0 < \<lceil>x\<rceil>" using a by simp
  ultimately have "nat \<lceil>x / 2\<rceil> < nat \<lceil>x\<rceil>" by simp
  with c show "(x / 2, x) \<in> measure (\<lambda>x. 2 * nat \<lceil>1 / x\<rceil> + nat \<lceil>x\<rceil>)" by simp
next
  fix x :: rat
  assume a: "\<not> x \<le> 0" "\<not> 2 \<le> x" "x < 1"
  have x1: "\<lceil>x\<rceil> = 1" using a by (simp add: ceiling_eq_iff)
  have "0 < 2 * x" "2 * x \<le> 2" using a by simp_all
  then have x2: "\<lceil>2 * x\<rceil> \<le> 2" by (simp add: ceiling_le_iff)
  define y where "y = 1 / x"
  have y: "1 < y" using a by (simp add: y_def field_simps)
  have h: "1 / (2 * x) = y / 2" by (simp add: y_def)
  have "\<lceil>y / 2\<rceil> \<le> \<lceil>y\<rceil> - 1"
  proof (cases "y \<le> 2")
    case True
    with y have "\<lceil>y / 2\<rceil> = 1" "\<lceil>y\<rceil> = 2" by (simp_all add: ceiling_eq_iff)
    then show ?thesis by simp
  next
    case False
    then have "y / 2 \<le> y - 1" by simp
    then have "\<lceil>y / 2\<rceil> \<le> \<lceil>y - 1\<rceil>" by (rule ceiling_mono)
    then show ?thesis by simp
  qed
  moreover have "0 < \<lceil>y\<rceil>" using y by simp
  ultimately have "nat \<lceil>y / 2\<rceil> + 1 \<le> nat \<lceil>y\<rceil>" by linarith
  moreover have "nat \<lceil>2 * x\<rceil> \<le> 2" using x2 by linarith
  ultimately have c: "2 * nat \<lceil>y / 2\<rceil> + nat \<lceil>2 * x\<rceil> < 2 * nat \<lceil>y\<rceil> + nat 1"
    by simp
  have "2 * nat \<lceil>1 / (2 * x)\<rceil> + nat \<lceil>2 * x\<rceil> < 2 * nat \<lceil>1 / x\<rceil> + nat \<lceil>x\<rceil>"
    using c unfolding h x1 y_def .
  then show "(2 * x, x) \<in> measure (\<lambda>x. 2 * nat \<lceil>1 / x\<rceil> + nat \<lceil>x\<rceil>)"
    by (simp only: in_measure)
qed

declare binaryExponent.simps [simp del]

definition pow2 :: "int \<Rightarrow> rat" where
  "pow2 e = (if 0 \<le> e then 2 ^ nat e else 1 / 2 ^ nat (- e))"

text \<open>
  Rounding a rational to the nearest double, a tie to the one with the even significand:
  the significand has 53 bits, fewer below \<open>2 ^ - 1022\<close>, where the exponent stays at
  \<open>- 1074\<close>. \<open>roundFinite\<close> leaves out the overflow, \<open>roundDouble\<close> has it.
\<close>

definition roundFinite :: "rat \<Rightarrow> rat" where
  "roundFinite x =
     (if x = 0 then 0
      else
        let e = max (binaryExponent \<bar>x\<bar> - 52) (- 1074);
            m = roundHalfEven (\<bar>x\<bar> / pow2 e)
        in sgn x * of_int m * pow2 e)"

definition roundDouble :: "rat \<Rightarrow> number" where
  "roundDouble x =
     (let y = roundFinite x
      in if 2 ^ 1024 \<le> y then PosInfinity
         else if y \<le> - (2 ^ 1024) then NegInfinity
         else Finite y)"

text \<open>\<open>x - y\<close>, \<open>Math.abs(x)\<close> and \<open>x <= y\<close> on numbers.\<close>

fun numberMinus :: "number \<Rightarrow> number \<Rightarrow> number" where
  "numberMinus (Finite a) (Finite b) = roundDouble (a - b)"
| "numberMinus NaN y = NaN"
| "numberMinus x NaN = NaN"
| "numberMinus PosInfinity PosInfinity = NaN"
| "numberMinus NegInfinity NegInfinity = NaN"
| "numberMinus PosInfinity y = PosInfinity"
| "numberMinus NegInfinity y = NegInfinity"
| "numberMinus (Finite a) PosInfinity = NegInfinity"
| "numberMinus (Finite a) NegInfinity = PosInfinity"

fun numberAbs :: "number \<Rightarrow> number" where
  "numberAbs (Finite a) = Finite \<bar>a\<bar>"
| "numberAbs PosInfinity = PosInfinity"
| "numberAbs NegInfinity = PosInfinity"
| "numberAbs NaN = NaN"

fun numberLe :: "number \<Rightarrow> number \<Rightarrow> bool" where
  "numberLe NaN y = False"
| "numberLe x NaN = False"
| "numberLe (Finite a) (Finite b) = (a \<le> b)"
| "numberLe NegInfinity y = True"
| "numberLe x PosInfinity = True"
| "numberLe x y = False"

text \<open>
  The value of a number literal of a JSON text: its exact decimal value, rounded to a
  double.
\<close>

definition digitsValue :: "jsstring \<Rightarrow> nat" where
  "digitsValue ds = foldl (\<lambda>a c. 10 * a + (c - 48)) 0 ds"

definition scale10 :: "rat \<Rightarrow> int \<Rightarrow> rat" where
  "scale10 m e = (if 0 \<le> e then m * 10 ^ nat e else m / 10 ^ nat (- e))"

definition exponentValue :: "jsstring \<Rightarrow> int" where
  "exponentValue s =
     (case s of
        [] \<Rightarrow> 0
      | e # r \<Rightarrow>
          (case r of
             [] \<Rightarrow> 0
           | g # ds \<Rightarrow>
               if g = 45 then - int (digitsValue ds)
               else if g = 43 then int (digitsValue ds)
               else int (digitsValue r)))"

definition unsignedValue :: "jsstring \<Rightarrow> rat" where
  "unsignedValue s =
     (let ip = takeWhile isDigit s;
          r1 = dropWhile isDigit s;
          fp = (case r1 of [] \<Rightarrow> [] | c # r \<Rightarrow> if c = 46 then takeWhile isDigit r else []);
          r2 = (case r1 of [] \<Rightarrow> [] | c # r \<Rightarrow> if c = 46 then dropWhile isDigit r else r1)
      in scale10 (of_nat (digitsValue (ip @ fp))) (exponentValue r2 - int (length fp)))"

definition decimalValue :: "jsstring \<Rightarrow> rat" where
  "decimalValue s =
     (case s of
        [] \<Rightarrow> 0
      | c # cs \<Rightarrow> if c = 45 then - unsignedValue cs else unsignedValue s)"

definition numberValue :: "jsstring \<Rightarrow> number" where
  "numberValue s = roundDouble (decimalValue s)"

text \<open>\<open>ToBoolean\<close>: what \<open>!v\<close>, \<open>v && ...\<close> and \<open>v || ...\<close> test.\<close>

fun truthy :: "json option \<Rightarrow> bool" where
  "truthy None = False"
| "truthy (Some JNull) = False"
| "truthy (Some (JBool b)) = b"
| "truthy (Some (JNumber n)) = (numberValue n \<noteq> Finite 0)"
| "truthy (Some (JString s)) = (s \<noteq> [])"
| "truthy (Some (JArray xs)) = True"
| "truthy (Some (JObject ms)) = True"

text \<open>
  Reading a property \<open>v.k\<close> of a parsed value, for the names the pipeline reads
  (\<open>players\<close>, \<open>hiddenContext\<close>, \<open>weapon\<close>, \<open>role\<close>, \<open>gender\<close>, \<open>age\<close>, ...; none of them is
  a property an array, a string or a prototype has): \<open>null\<close> throws a \<open>TypeError\<close>, an
  object gives its own property, every other value gives \<open>undefined\<close>.
\<close>

fun getProp :: "json \<Rightarrow> jsstring \<Rightarrow> error + json option" where
  "getProp JNull k = Inl TypeError"
| "getProp (JObject ms) k = Inr (map_of ms k)"
| "getProp v k = Inr None"

text \<open>
  Writing a property \<open>v.k = x\<close>, for the names the pipeline writes (\<open>name\<close>, \<open>photo\<close>,
  \<open>killerId\<close>). The module is an ES module, hence strict code: the write throws a
  \<open>TypeError\<close> on \<open>null\<close> and on a primitive value. On an array it adds a named property,
  which \<open>JSON.stringify\<close> does not show and the pipeline reads only to build a prompt: the
  array as a JSON value is unchanged.
\<close>

fun setProp :: "json \<Rightarrow> jsstring \<Rightarrow> json \<Rightarrow> error + json" where
  "setProp (JObject ms) k x = Inr (JObject (objSet ms k x))"
| "setProp (JArray xs) k x = Inr (JArray xs)"
| "setProp v k x = Inl TypeError"

text \<open>The decimal digits of a number, for the template literal \<open>`player-${n}`\<close>.\<close>

function natToString :: "nat \<Rightarrow> jsstring" where
  "natToString n = (if n < 10 then [48 + n] else natToString (n div 10) @ [48 + n mod 10])"
  by pat_completeness auto
termination
  by (relation "measure id") auto

declare natToString.simps [simp del]

definition intToString :: "int \<Rightarrow> jsstring" where
  "intToString i = (if i < 0 then 45 # natToString (nat (- i)) else natToString (nat i))"

definition playerId :: "int \<Rightarrow> jsstring" where
  "playerId n = js ''player-'' @ intToString n"

text \<open>\<open>s.includes(sub)\<close>.\<close>

fun includesStr :: "jsstring \<Rightarrow> jsstring \<Rightarrow> bool" where
  "includesStr [] sub = (sub = [])"
| "includesStr (c # cs) sub = (take (length sub) (c # cs) = sub \<or> includesStr cs sub)"

text \<open>
  Two conversions are left to the engine and are parameters of the model:
  \<open>String.prototype.toLowerCase\<close>, which follows the Unicode case mapping, and the
  decimal text \<open>Number.prototype.toString\<close> gives for the value of a number literal.
\<close>

record engine =
  toLowerCase :: "jsstring \<Rightarrow> jsstring"
  numberToString :: "jsstring \<Rightarrow> jsstring"

text \<open>
  Converting a parsed value to a string, by \<open>v.toString()\<close> or inside a template literal,
  throws a \<open>TypeError\<close> exactly when it meets an object with a property of its own named
  \<open>toString\<close> (no JSON value is callable); an array converts its elements, \<open>null\<close> to the
  empty string, and joins them with commas.
\<close>

fun toStringThrows :: "json \<Rightarrow> bool" where
  "toStringThrows (JObject ms) = (map_of ms (js ''toString'') \<noteq> None)"
| "toStringThrows (JArray xs) = (\<exists>x\<in>set xs. toStringThrows x)"
| "toStringThrows v = False"

fun joinComma :: "jsstring list \<Rightarrow> jsstring" where
  "joinComma [] = []"
| "joinComma [x] = x"
| "joinComma (x # y # ys) = x @ [COMMA] @ joinComma (y # ys)"

fun jsToString :: "engine \<Rightarrow> json \<Rightarrow> jsstring" where
  "jsToString eng JNull = js ''null''"
| "jsToString eng (JBool b) = (if b then js ''true'' else js ''false'')"
| "jsToString eng (JNumber n) = numberToString eng n"
| "jsToString eng (JString s) = s"
| "jsToString eng (JArray xs) =
     joinComma (map (\<lambda>x. if x = JNull then [] else jsToString eng x) xs)"
| "jsToString eng (JObject ms) = js ''[object Object]''"

text \<open>\<open>(v || '').toString()\<close>.\<close>

definition orEmptyToString :: "engine \<Rightarrow> json option \<Rightarrow> error + jsstring" where
  "orEmptyToString eng v =
     (case v of
        None \<Rightarrow> Inr []
      | Some x \<Rightarrow>
          if \<not> truthy v then Inr []
          else if toStringThrows x then Inl TypeError
          else Inr (jsToString eng x))"

text \<open>
  A template literal that shows the properties \<open>ks\<close> of the player \<open>p\<close> throws when \<open>p\<close> is
  \<open>null\<close> or when the conversion of one of the properties throws.
\<close>

definition showThrows :: "jsstring list \<Rightarrow> json \<Rightarrow> bool" where
  "showThrows ks p \<longleftrightarrow>
     p = JNull \<or>
     (\<exists>k\<in>set ks. case getProp p k of Inr (Some x) \<Rightarrow> toStringThrows x | _ \<Rightarrow> False)"

section \<open>The data of the pipeline\<close>

text \<open>
  The catalog records, as the interfaces \<open>Suspect\<close> and \<open>Weapon\<close> declare them. \<open>approx_age\<close>
  is \<open>None\<close> when the record holds no number there.
\<close>

record localized =
  en :: jsstring
  es :: jsstring

record suspect =
  sid :: jsstring
  image_url :: jsstring
  gender :: jsstring
  approx_age :: "number option"
  occupation :: localized
  tags :: "jsstring list"

record weapon =
  wid :: jsstring
  wimage_url :: jsstring
  wname :: localized
  wtags :: "jsstring list"

text \<open>
  The request body, as \<open>ImpostorCaseGenerationRequest\<close> declares it. A required string
  that is missing is the empty string and a required number that is missing is \<open>0\<close>: the
  handler only tests them with \<open>!\<close> before it returns. \<open>suspects\<close> and \<open>clues\<close> are whole
  numbers. \<open>playerNames\<close> and \<open>playerGenders\<close> are arrays of strings, which the handler's
  normalisation leaves as they are.
\<close>

record custom_scenario =
  place :: jsstring
  themeOrSituation :: "jsstring option"

record request =
  caseType :: jsstring
  suspects :: int
  clues :: int
  scenario :: "jsstring option"
  customScenario :: "custom_scenario option"
  difficulty :: jsstring
  style :: "jsstring option"
  language :: "jsstring option"
  playerNames :: "jsstring list"
  playerGenders :: "jsstring list"

record suspect_options =
  count :: int
  scene :: "jsstring option"
  ostyle :: "jsstring option"
  preferredGenders :: "jsstring list option"

record weapon_options =
  wscene :: "jsstring option"
  wstyle :: "jsstring option"
  preferSpecific :: bool

text \<open>What a chat completion call gives: the content of the first choice, or an error.\<close>

datatype llm_reply =
    Reply "jsstring option"
  | CallFails jsstring

text \<open>
  The collaborators of one run of the handler: the values \<open>Math.random()\<close> returns in the
  handler, call by call; whether \<open>OPENAI_API_KEY\<close> is defined; the catalog services; and
  the replies of the text generation service, call by call.
\<close>

record env =
  random :: "nat \<Rightarrow> rat"
  apiKeyDefined :: bool
  getSuspectsForScene :: "suspect_options \<Rightarrow> error + suspect list"
  selectWeapon :: "weapon_options \<Rightarrow> error + weapon option"
  chat :: "nat \<Rightarrow> llm_reply"

text \<open>The calls to collaborators a run makes, in order.\<close>

datatype stage =
    CoreStage int
      \<comment> \<open>the index of the player who discovered the body\<close>
  | BatchStage nat int "int list" int
      \<comment> \<open>\<open>batchStart\<close>, \<open>batchSize\<close>, \<open>batchIndices\<close> and the index of the killer\<close>
  | HiddenStage int
      \<comment> \<open>the index of the killer\<close>

datatype event =
    CatalogQuery suspect_options
  | WeaponQuery weapon_options
  | ChatCall stage

record world =
  chatCalls :: nat
  events :: "event list"

definition world0 :: world where
  "world0 = \<lparr>chatCalls = 0, events = []\<rparr>"

text \<open>The document the handler answers with.\<close>

record config =
  cfgCaseType :: jsstring
  totalClues :: int
  cfgScenario :: jsstring
  cfgCustomScenario :: "custom_scenario option"
  cfgDifficulty :: jsstring

record case_response =
  caseTitle :: "json option"
  caseDescription :: "json option"
  victim :: "json option"
  players :: "json list"
  rweapon :: "json option"
  hiddenContext :: json
  rconfig :: config

datatype http_response =
    Http400 jsstring
      \<comment> \<open>\<open>res.status(400).json({ error })\<close>\<close>
  | Http500 jsstring error
      \<comment> \<open>\<open>res.status(500).json({ error, details })\<close>, \<open>details\<close> being the message of the error\<close>
  | Http200 case_response
      \<comment> \<open>\<open>res.json(response)\<close>\<close>

section \<open>The role assigner\<close>

text \<open>
  \<open>Math.floor(Math.random() * body.suspects) + 1\<close> for the draw \<open>r\<close>, a double in \<open>[0, 1)\<close>.
  The product is rounded to a double before \<open>Math.floor\<close>; for a number of suspects below
  \<open>2 ^ 53\<close> it is finite and adding \<open>1\<close> to its floor is exact. The literal \<open>0.3\<close> in
  \<open>Math.random() < 0.3\<close> is the double next to \<open>3 / 10\<close>.
\<close>

definition randomIndex :: "rat \<Rightarrow> int \<Rightarrow> int" where
  "randomIndex r n = \<lfloor>roundFinite (r * of_int n)\<rfloor> + 1"

record roles =
  randomKillerIndex :: int
  discoveredByIsKiller :: bool
  discoveredByPlayerIndex :: int

definition assignRoles :: "(nat \<Rightarrow> rat) \<Rightarrow> int \<Rightarrow> roles" where
  "assignRoles rnd n =
     (let killer = randomIndex (rnd 0) n;
          byKiller = (rnd 1 < roundFinite (3 / 10))
      in \<lparr>randomKillerIndex = killer,
          discoveredByIsKiller = byKiller,
          discoveredByPlayerIndex = (if byKiller then killer else randomIndex (rnd 2) n)\<rparr>)"

section \<open>The stages\<close>

definition getOpenAIClient :: "env \<Rightarrow> error + unit" where
  "getOpenAIClient env =
     (if apiKeyDefined env then Inr ()
      else Inl (ServiceError (js ''OPENAI_API_KEY is not defined'')))"

text \<open>
  \<open>openai.chat.completions.create\<close> followed by
  \<open>if (!response) throw new Error('No response from OpenAI')\<close>. The prompt is not modelled:
  the reply is the one the environment holds for this call.
\<close>

definition chatCompletion :: "env \<Rightarrow> stage \<Rightarrow> world \<Rightarrow> (error + jsstring) \<times> world" where
  "chatCompletion env st w =
     (let w' = \<lparr>chatCalls = Suc (chatCalls w), events = events w @ [ChatCall st]\<rparr> in
      case chat env (chatCalls w) of
        CallFails m \<Rightarrow> (Inl (ServiceError m), w')
      | Reply c \<Rightarrow>
          (case c of
             None \<Rightarrow> (Inl NoResponse, w')
           | Some response \<Rightarrow>
               if response = [] then (Inl NoResponse, w') else (Inr response, w')))"

definition generateImpostorCaseCore :: "env \<Rightarrow> int \<Rightarrow> world \<Rightarrow> (error + json) \<times> world" where
  "generateImpostorCaseCore env discoveredBy w =
     (case getOpenAIClient env of
        Inl e \<Rightarrow> (Inl e, w)
      | Inr _ \<Rightarrow>
          (case chatCompletion env (CoreStage discoveredBy) w of
             (Inl e, w') \<Rightarrow> (Inl e, w')
           | (Inr response, w') \<Rightarrow> (parseAndRepairJSON response, w')))"

text \<open>The end of \<open>generatePlayersBatch\<close>: parsing the response and the two checks.\<close>

definition checkPlayers :: "jsstring \<Rightarrow> int \<Rightarrow> error + json list" where
  "checkPlayers response batchSize =
     (case parseAndRepairJSON response of
        Inl e \<Rightarrow> Inl e
      | Inr parsed \<Rightarrow>
          (case getProp parsed (js ''players'') of
             Inl e \<Rightarrow> Inl e
           | Inr (Some (JArray xs)) \<Rightarrow>
               if int (length xs) \<noteq> batchSize
               then Inl (BatchCountMismatch (length xs) batchSize)
               else Inr xs
           | Inr _ \<Rightarrow> Inl MissingPlayersArray))"

text \<open>
  \<open>generatePlayersBatch\<close>. Building the prompt shows \<open>p.name\<close>, \<open>p.role\<close> and
  \<open>p.description\<close> of every earlier player.
\<close>

definition batchIndices :: "nat \<Rightarrow> int \<Rightarrow> int \<Rightarrow> int list" where
  "batchIndices batchStart batchSize n =
     [int batchStart + 1 .. min (int batchStart + batchSize) n]"

definition generatePlayersBatch ::
  "env \<Rightarrow> request \<Rightarrow> int \<Rightarrow> json list \<Rightarrow> nat \<Rightarrow> int \<Rightarrow> world \<Rightarrow> (error + json list) \<times> world" where
  "generatePlayersBatch env body killer existingPlayers batchStart batchSize w =
     (case getOpenAIClient env of
        Inl e \<Rightarrow> (Inl e, w)
      | Inr _ \<Rightarrow>
          if \<exists>p\<in>set existingPlayers.
               showThrows [js ''name'', js ''role'', js ''description''] p
          then (Inl TypeError, w)
          else
            (case chatCompletion env
                    (BatchStage batchStart batchSize
                       (batchIndices batchStart batchSize (suspects body)) killer) w of
               (Inl e, w') \<Rightarrow> (Inl e, w')
             | (Inr response, w') \<Rightarrow> (checkPlayers response batchSize, w')))"

text \<open>
  The loop \<open>for (let batchStart = 0; batchStart < body.suspects; batchStart += BATCH_SIZE)\<close>
  with \<open>BATCH_SIZE = 3\<close>.
\<close>

function playersLoop ::
  "env \<Rightarrow> request \<Rightarrow> int \<Rightarrow> nat \<Rightarrow> json list \<Rightarrow> world \<Rightarrow> (error + json list) \<times> world" where
  "playersLoop env body killer batchStart allPlayers w =
     (if int batchStart < suspects body then
        (case generatePlayersBatch env body killer allPlayers batchStart
                (min 3 (suspects body - int batchStart)) w of
           (Inl e, w') \<Rightarrow> (Inl e, w')
         | (Inr batch, w') \<Rightarrow> playersLoop env body killer (batchStart + 3) (allPlayers @ batch) w')
      else (Inr allPlayers, w))"
  by pat_completeness auto
termination
  by (relation "measure (\<lambda>(env, body, killer, batchStart, allPlayers, w).
        nat (suspects body - int batchStart))") auto

declare playersLoop.simps [simp del]

text \<open>
  \<open>allPlayers.forEach((p, i) => { if (playerNames[i]) p.name = playerNames[i] })\<close>, which
  runs when \<open>playerNames\<close> is not empty.
\<close>

fun applyNames :: "jsstring list \<Rightarrow> json list \<Rightarrow> error + json list" where
  "applyNames names [] = Inr []"
| "applyNames [] (p # ps) = Inr (p # ps)"
| "applyNames (n # ns) (p # ps) =
     (case (if n \<noteq> [] then setProp p (js ''name'') (JString n) else Inr p) of
        Inl e \<Rightarrow> Inl e
      | Inr p' \<Rightarrow>
          (case applyNames ns ps of
             Inl e \<Rightarrow> Inl e
           | Inr ps' \<Rightarrow> Inr (p' # ps')))"

section \<open>The reconciler\<close>

text \<open>
  \<open>scoreMatch(gen, orig)\<close>. \<open>orig.occupation\<close> is an object, so
  \<open>orig.occupation?.es || orig.occupation || ''\<close> is the Spanish text, or the object itself
  when that text is empty, whose \<open>toString()\<close> is \<open>[object Object]\<close>.
\<close>

definition genRoleOf :: "engine \<Rightarrow> json \<Rightarrow> error + jsstring" where
  "genRoleOf eng gen =
     (case getProp gen (js ''role'') of
        Inl e \<Rightarrow> Inl e
      | Inr r \<Rightarrow>
          (case orEmptyToString eng r of
             Inl e \<Rightarrow> Inl e
           | Inr t \<Rightarrow> Inr (trim (toLowerCase eng t))))"

definition origOccEsOf :: "engine \<Rightarrow> suspect \<Rightarrow> jsstring" where
  "origOccEsOf eng orig =
     trim (toLowerCase eng
       (if es (occupation orig) \<noteq> [] then es (occupation orig) else js ''[object Object]''))"

definition origOccEnOf :: "engine \<Rightarrow> suspect \<Rightarrow> jsstring" where
  "origOccEnOf eng orig = trim (toLowerCase eng (en (occupation orig)))"

definition scoreMatch :: "engine \<Rightarrow> json \<Rightarrow> suspect \<Rightarrow> error + int" where
  "scoreMatch eng gen orig =
     (case genRoleOf eng gen of
        Inl e \<Rightarrow> Inl e
      | Inr genRole \<Rightarrow>
          (let origOccEs = origOccEsOf eng orig;
               origOccEn = origOccEnOf eng orig;
               score0 = (0 :: int);
               score1 =
                 (if genRole \<noteq> [] \<and> (genRole = origOccEs \<or> genRole = origOccEn)
                  then score0 + 5
                  else if genRole \<noteq> [] \<and>
                          (includesStr origOccEs genRole \<or> includesStr genRole origOccEs)
                  then score0 + 3
                  else score0);
               score2 =
                 (case getProp gen (js ''gender'') of
                    Inr (Some (JString g)) \<Rightarrow>
                      if g \<noteq> [] \<and> gender orig \<noteq> [] \<and> g = gender orig then score1 + 2 else score1
                  | _ \<Rightarrow> score1);
               score3 =
                 (case getProp gen (js ''age'') of
                    Inr (Some (JNumber a)) \<Rightarrow>
                      (case approx_age orig of
                         Some b \<Rightarrow>
                           (let diff = numberAbs (numberMinus (numberValue a) b) in
                            if numberLe diff (Finite 1) then score2 + 2
                            else if numberLe diff (Finite 3) then score2 + 1
                            else score2)
                       | None \<Rightarrow> score2)
                  | _ \<Rightarrow> score2)
           in Inr score3))"

text \<open>
  The inner \<open>remaining.forEach\<close>: the best record not yet used and its score, the first
  one among equals.
\<close>

fun findBest ::
  "engine \<Rightarrow> json \<Rightarrow> jsstring list \<Rightarrow> suspect list \<Rightarrow> suspect option \<times> int \<Rightarrow>
   error + suspect option \<times> int" where
  "findBest eng gen usedIds [] acc = Inr acc"
| "findBest eng gen usedIds (orig # rest) (best, bestScore) =
     (if sid orig \<in> set usedIds then findBest eng gen usedIds rest (best, bestScore)
      else
        (case scoreMatch eng gen orig of
           Inl e \<Rightarrow> Inl e
         | Inr s \<Rightarrow>
             findBest eng gen usedIds rest
               (if bestScore < s then (Some orig, s) else (best, bestScore))))"

text \<open>
  One round of \<open>allPlayers.forEach\<close>: the player with its photo and the new \<open>usedIds\<close>.
  Before the photo is written, \<open>console.log\<close> shows \<open>gen.name\<close> in a template literal.
\<close>

definition matchOne ::
  "engine \<Rightarrow> suspect list \<Rightarrow> jsstring list \<Rightarrow> json \<Rightarrow> error + json \<times> jsstring list" where
  "matchOne eng remaining usedIds gen =
     (case findBest eng gen usedIds remaining (None, - 1) of
        Inl e \<Rightarrow> Inl e
      | Inr (found, bestScore) \<Rightarrow>
          (let best = (case found of
                         None \<Rightarrow> find (\<lambda>orig. sid orig \<notin> set usedIds) remaining
                       | Some b \<Rightarrow> Some b);
               usedIds' = (case best of
                             None \<Rightarrow> usedIds
                           | Some b \<Rightarrow> if sid b \<noteq> [] then sid b # usedIds else usedIds)
           in case best of
                None \<Rightarrow> Inr (gen, usedIds')
              | Some b \<Rightarrow>
                  if image_url b \<noteq> [] then
                    (if showThrows [js ''name''] gen then Inl TypeError
                     else
                       (case setProp gen (js ''photo'') (JString (image_url b)) of
                          Inl e \<Rightarrow> Inl e
                        | Inr gen' \<Rightarrow> Inr (gen', usedIds')))
                  else Inr (gen, usedIds')))"

fun matchLoop ::
  "engine \<Rightarrow> suspect list \<Rightarrow> jsstring list \<Rightarrow> json list \<Rightarrow> error + json list" where
  "matchLoop eng remaining usedIds [] = Inr []"
| "matchLoop eng remaining usedIds (gen # gens) =
     (case matchOne eng remaining usedIds gen of
        Inl e \<Rightarrow> Inl e
      | Inr (gen', usedIds') \<Rightarrow>
          (case matchLoop eng remaining usedIds' gens of
             Inl e \<Rightarrow> Inl e
           | Inr gens' \<Rightarrow> Inr (gen' # gens')))"

text \<open>The matching step of the handler: \<open>remaining = [...selectedSuspects]\<close>, no id used.\<close>

definition matchPhotos :: "engine \<Rightarrow> suspect list \<Rightarrow> json list \<Rightarrow> error + json list" where
  "matchPhotos eng selectedSuspects allPlayers = matchLoop eng selectedSuspects [] allPlayers"

section \<open>The last stage and the handler\<close>

text \<open>
  \<open>generateImpostorHiddenContext\<close>. Building the prompt reads \<open>p.id\<close> of the players and
  shows \<open>p.name\<close>, \<open>p.id\<close> and \<open>p.role\<close> of every player. The result is
  \<open>parsed.hiddenContext\<close>.
\<close>

definition generateImpostorHiddenContext ::
  "env \<Rightarrow> int \<Rightarrow> json list \<Rightarrow> world \<Rightarrow> (error + json option) \<times> world" where
  "generateImpostorHiddenContext env killer allPlayers w =
     (case getOpenAIClient env of
        Inl e \<Rightarrow> (Inl e, w)
      | Inr _ \<Rightarrow>
          if \<exists>p\<in>set allPlayers. showThrows [js ''name'', js ''id'', js ''role''] p
          then (Inl TypeError, w)
          else
            (case chatCompletion env (HiddenStage killer) w of
               (Inl e, w') \<Rightarrow> (Inl e, w')
             | (Inr response, w') \<Rightarrow>
                 (case parseAndRepairJSON response of
                    Inl e \<Rightarrow> (Inl e, w')
                  | Inr parsed \<Rightarrow> (getProp parsed (js ''hiddenContext''), w'))))"

text \<open>\<open>hiddenContext.killerId = `player-${randomKillerIndex}`\<close>.\<close>

definition setKillerId :: "json option \<Rightarrow> int \<Rightarrow> error + json" where
  "setKillerId hc killer =
     (case hc of
        None \<Rightarrow> Inl TypeError
      | Some v \<Rightarrow> setProp v (js ''killerId'') (JString (playerId killer)))"

text \<open>
  \<open>{ ...hiddenContext, killerId: `player-${randomKillerIndex}` }\<close>: the spread of an array
  has its elements under their indices.
\<close>

definition spreadKillerId :: "json \<Rightarrow> int \<Rightarrow> json" where
  "spreadKillerId hc killer =
     (let own = (case hc of
                   JObject ms \<Rightarrow> ms
                 | JArray xs \<Rightarrow> zip (map natToString [0 ..< length xs]) xs
                 | _ \<Rightarrow> [])
      in JObject (objSet own (js ''killerId'') (JString (playerId killer))))"

text \<open>
  \<open>if (selectedWeapon && caseCore.weapon) caseCore.weapon.photo = selectedWeapon.image_url\<close>:
  the value of \<open>caseCore.weapon\<close> afterwards.
\<close>

definition assignWeaponPhoto :: "weapon option \<Rightarrow> json \<Rightarrow> error + json option" where
  "assignWeaponPhoto selectedWeapon caseCore =
     (case getProp caseCore (js ''weapon'') of
        Inl e \<Rightarrow> Inl e
      | Inr wp \<Rightarrow>
          (case (selectedWeapon, wp) of
             (Some sw, Some x) \<Rightarrow>
               if truthy wp then
                 (case setProp x (js ''photo'') (JString (wimage_url sw)) of
                    Inl e \<Rightarrow> Inl e
                  | Inr x' \<Rightarrow> Inr (Some x'))
               else Inr wp
           | _ \<Rightarrow> Inr wp))"

text \<open>\<open>buildCustomScenarioText\<close>.\<close>

definition buildCustomScenarioText :: "custom_scenario \<Rightarrow> jsstring" where
  "buildCustomScenarioText cs =
     (case themeOrSituation cs of
        None \<Rightarrow> place cs
      | Some t \<Rightarrow> if t \<noteq> [] then place cs @ js ''. '' @ t else place cs)"

definition strTruthy :: "jsstring option \<Rightarrow> bool" where
  "strTruthy s \<longleftrightarrow> (case s of None \<Rightarrow> False | Some t \<Rightarrow> t \<noteq> [])"

definition buildConfig :: "request \<Rightarrow> config" where
  "buildConfig body =
     \<lparr>cfgCaseType = caseType body,
      totalClues = clues body,
      cfgScenario =
        (case customScenario body of
           Some cs \<Rightarrow> buildCustomScenarioText cs
         | None \<Rightarrow> if strTruthy (scenario body) then the (scenario body) else js ''aleatorio''),
      cfgCustomScenario = customScenario body,
      cfgDifficulty = difficulty body\<rparr>"

text \<open>The steps after the last stage: the document.\<close>

definition buildResponse ::
  "request \<Rightarrow> int \<Rightarrow> weapon option \<Rightarrow> json \<Rightarrow> json list \<Rightarrow> json option \<Rightarrow> error + case_response" where
  "buildResponse body killer selectedWeapon caseCore allPlayers hc =
     (case setKillerId hc killer of
        Inl e \<Rightarrow> Inl e
      | Inr hc' \<Rightarrow>
          (case assignWeaponPhoto selectedWeapon caseCore of
             Inl e \<Rightarrow> Inl e
           | Inr wp \<Rightarrow>
               (case (getProp caseCore (js ''caseTitle''),
                      getProp caseCore (js ''caseDescription''),
                      getProp caseCore (js ''victim'')) of
                  (Inr t, Inr d, Inr v) \<Rightarrow>
                    Inr \<lparr>caseTitle = t, caseDescription = d, victim = v,
                         players = allPlayers, rweapon = wp,
                         hiddenContext = spreadKillerId hc' killer,
                         rconfig = buildConfig body\<rparr>
                | _ \<Rightarrow> Inl TypeError)))"

text \<open>
  The steps between the player batches and the last stage: the check of the number of
  players, the names, the photos.
\<close>

definition postProcessPlayers :: "engine \<Rightarrow> request \<Rightarrow> suspect list \<Rightarrow> json list \<Rightarrow> error + json list" where
  "postProcessPlayers eng body selectedSuspects allPlayers =
     (if int (length allPlayers) \<noteq> suspects body
      then Inl (TotalCountMismatch (length allPlayers) (suspects body))
      else
        (case (if playerNames body \<noteq> [] then applyNames (playerNames body) allPlayers
               else Inr allPlayers) of
           Inl e \<Rightarrow> Inl e
         | Inr named \<Rightarrow> matchPhotos eng selectedSuspects named))"

text \<open>The body of the \<open>try\<close> block after the checks of the request.\<close>

definition suspectOptions :: "request \<Rightarrow> suspect_options" where
  "suspectOptions body =
     \<lparr>count = suspects body,
      scene = (case customScenario body of Some _ \<Rightarrow> None | None \<Rightarrow> scenario body),
      ostyle = style body,
      preferredGenders = (if playerGenders body \<noteq> [] then Some (playerGenders body) else None)\<rparr>"

definition weaponOptions :: "request \<Rightarrow> weapon_options" where
  "weaponOptions body =
     \<lparr>wscene = (case customScenario body of Some _ \<Rightarrow> None | None \<Rightarrow> scenario body),
      wstyle = style body,
      preferSpecific = (customScenario body = None)\<rparr>"

definition fetchWeapon :: "env \<Rightarrow> request \<Rightarrow> world \<Rightarrow> (error + weapon option) \<times> world" where
  "fetchWeapon env body w =
     (if caseType body = js ''asesinato''
      then (selectWeapon env (weaponOptions body),
            w\<lparr>events := events w @ [WeaponQuery (weaponOptions body)]\<rparr>)
      else (Inr None, w))"

definition generateCase :: "engine \<Rightarrow> env \<Rightarrow> request \<Rightarrow> (error + case_response) \<times> world" where
  "generateCase eng env body =
     (let w0 = world0\<lparr>events := [CatalogQuery (suspectOptions body)]\<rparr> in
      case getSuspectsForScene env (suspectOptions body) of
        Inl e \<Rightarrow> (Inl e, w0)
      | Inr selectedSuspects \<Rightarrow>
          (case fetchWeapon env body w0 of
             (Inl e, w1) \<Rightarrow> (Inl e, w1)
           | (Inr selectedWeapon, w1) \<Rightarrow>
               (let r = assignRoles (random env) (suspects body) in
                case generateImpostorCaseCore env (discoveredByPlayerIndex r) w1 of
                  (Inl e, w2) \<Rightarrow> (Inl e, w2)
                | (Inr caseCore, w2) \<Rightarrow>
                    (case playersLoop env body (randomKillerIndex r) 0 [] w2 of
                       (Inl e, w3) \<Rightarrow> (Inl e, w3)
                     | (Inr generated, w3) \<Rightarrow>
                         (case postProcessPlayers eng body selectedSuspects generated of
                            Inl e \<Rightarrow> (Inl e, w3)
                          | Inr allPlayers \<Rightarrow>
                              (case generateImpostorHiddenContext env (randomKillerIndex r)
                                      allPlayers w3 of
                                 (Inl e, w4) \<Rightarrow> (Inl e, w4)
                               | (Inr hc, w4) \<Rightarrow>
                                   (buildResponse body (randomKillerIndex r) selectedWeapon
                                      caseCore allPlayers hc, w4)))))))"

text \<open>
  The handler of \<open>POST /api/generate-impostor-case\<close>: the response and the calls to
  collaborators it made.
\<close>

definition handler :: "engine \<Rightarrow> env \<Rightarrow> request \<Rightarrow> http_response \<times> event list" where
  "handler eng env body =
     (if caseType body = [] \<or> suspects body = 0 \<or> clues body = 0 \<or> difficulty body = []
      then (Http400 (js ''Missing required fields: caseType, suspects, clues, difficulty''), [])
      else if strTruthy (scenario body) \<and> customScenario body \<noteq> None
      then (Http400 (js ''Cannot provide both scenario and customScenario. Provide only one.''), [])
      else if \<not> strTruthy (scenario body) \<and> customScenario body = None
      then (Http400 (js ''Must provide either scenario or customScenario''), [])
      else
        (case generateCase eng env body of
           (Inl e, w) \<Rightarrow> (Http500 (js ''Failed to generate impostor case'') e, events w)
         | (Inr response, w) \<Rightarrow> (Http200 response, events w)))"

section \<open>The amended scoring rule and example data\<close>

text \<open>
  The three bonuses of the scoring rule, stated on the strings and numbers the rule
  compares: the role of the generated player and the two occupation texts of the record,
  all lower-cased and trimmed; the two genders; the two ages.
\<close>

definition roleBonus :: "jsstring \<Rightarrow> jsstring \<Rightarrow> jsstring \<Rightarrow> int" where
  "roleBonus genRole occEs occEn =
     (if genRole = [] then 0
      else if genRole = occEs \<or> genRole = occEn then 5
      else if includesStr occEs genRole \<or> includesStr genRole occEs then 3
      else 0)"

definition genderBonus :: "json option \<Rightarrow> jsstring \<Rightarrow> int" where
  "genderBonus g origGender =
     (case g of
        Some (JString t) \<Rightarrow> if t \<noteq> [] \<and> t = origGender then 2 else 0
      | _ \<Rightarrow> 0)"

definition ageBonus :: "json option \<Rightarrow> number option \<Rightarrow> int" where
  "ageBonus a origAge =
     (case a of
        Some (JNumber n) \<Rightarrow>
          (case origAge of
             Some b \<Rightarrow>
               if numberLe (numberAbs (numberMinus (numberValue n) b)) (Finite 1) then 2
               else if numberLe (numberAbs (numberMinus (numberValue n) b)) (Finite 3) then 1
               else 0
           | None \<Rightarrow> 0)
      | _ \<Rightarrow> 0)"

text \<open>\<open>v.k\<close> for a value \<open>v\<close> that is not \<open>null\<close>.\<close>

definition propOf :: "json \<Rightarrow> jsstring \<Rightarrow> json option" where
  "propOf v k = (case getProp v k of Inr x \<Rightarrow> x | Inl e \<Rightarrow> None)"

text \<open>An engine for the examples: ASCII letters are lower-cased, a number shows its literal.\<close>

definition asciiLower :: "nat \<Rightarrow> nat" where
  "asciiLower c = (if 65 \<le> c \<and> c \<le> 90 then c + 32 else c)"

definition exampleEngine :: engine where
  "exampleEngine = \<lparr>toLowerCase = map asciiLower, numberToString = (\<lambda>n. n)\<rparr>"

definition chefPlayer :: json where
  "chefPlayer = JObject [(js ''id'', JString (js ''player-1'')), (js ''role'', JString (js ''Chef''))]"

definition chefRecord :: suspect where
  "chefRecord =
     \<lparr>sid = js ''s1'', image_url = js ''https://img/1.png'', gender = js ''male'',
      approx_age = Some (Finite 40), occupation = \<lparr>en = js ''cook'', es = js ''chef''\<rparr>,
      tags = [js ''hotel'']\<rparr>"

text \<open>
  A request body with a \<open>scenario\<close> and a \<open>customScenario\<close>, and an environment whose catalog
  query fails.
\<close>

definition bothScenariosBody :: request where
  "bothScenariosBody =
     \<lparr>caseType = js ''robo'', suspects = 3, clues = 5, scenario = Some (js ''hotel''),
      customScenario = Some \<lparr>place = js ''jet privado'', themeOrSituation = None\<rparr>,
      difficulty = js ''facil'', style = None, language = None,
      playerNames = [], playerGenders = []\<rparr>"

definition catalogDown :: env where
  "catalogDown =
     \<lparr>random = (\<lambda>i. 0), apiKeyDefined = True,
      getSuspectsForScene = (\<lambda>opts. Inl (ServiceError (js ''Error de conexion con Supabase''))),
      selectWeapon = (\<lambda>opts. Inr None),
      chat = (\<lambda>i. Reply None)\<rparr>"

section \<open>Runs and what they show\<close>

text \<open>
  The \<open>i\<close>-th reply of the generation service, read as the answer to a batch of \<open>k\<close>
  players: what \<open>generatePlayersBatch\<close> returns once it has made the call.
\<close>

definition batchReply :: "env \<Rightarrow> nat \<Rightarrow> int \<Rightarrow> error + json list" where
  "batchReply env i k =
     (case chat env i of
        CallFails m \<Rightarrow> Inl (ServiceError m)
      | Reply c \<Rightarrow>
          (case c of
             None \<Rightarrow> Inl NoResponse
           | Some response \<Rightarrow> if response = [] then Inl NoResponse else checkPlayers response k))"

text \<open>The stages of the chat completion calls in a list of events.\<close>

fun chatStages :: "event list \<Rightarrow> stage list" where
  "chatStages [] = []"
| "chatStages (ChatCall st # evs) = st # chatStages evs"
| "chatStages (ev # evs) = chatStages evs"

text \<open>The world after one more chat completion call.\<close>

definition called :: "world \<Rightarrow> stage \<Rightarrow> world" where
  "called w st = \<lparr>chatCalls = Suc (chatCalls w), events = events w @ [ChatCall st]\<rparr>"

text \<open>
  The players the generation service returns for the batches of a run: the \<open>players\<close>
  arrays of its replies to the batch calls, in order. The batch that starts at
  \<open>batchStart\<close> is answered by reply \<open>i\<close>; the first batch by reply \<open>1\<close>, after the reply
  to the core stage.
\<close>

function repliedPlayers :: "env \<Rightarrow> int \<Rightarrow> nat \<Rightarrow> nat \<Rightarrow> error + json list" where
  "repliedPlayers env n batchStart i =
     (if int batchStart < n then
        (case batchReply env i (min 3 (n - int batchStart)) of
           Inl e \<Rightarrow> Inl e
         | Inr batch \<Rightarrow>
             (case repliedPlayers env n (batchStart + 3) (Suc i) of
                Inl e \<Rightarrow> Inl e
              | Inr rest \<Rightarrow> Inr (batch @ rest)))
      else Inr [])"
  by pat_completeness auto
termination
  by (relation "measure (\<lambda>(env, n, batchStart, i). nat (n - int batchStart))") auto

declare repliedPlayers.simps [simp del]

definition generatedPlayers :: "env \<Rightarrow> request \<Rightarrow> error + json list" where
  "generatedPlayers env body = repliedPlayers env (suspects body) 0 1"

text \<open>The identifiers a call hands to the generation service as its checklist.\<close>

fun checklist :: "stage \<Rightarrow> int list" where
  "checklist (BatchStage b k idx killer) = idx"
| "checklist st = []"

text \<open>The identifiers of the players of a document with \<open>isKiller == true\<close>.\<close>

definition culprits :: "json list \<Rightarrow> json option list" where
  "culprits ps =
     map (\<lambda>p. propOf p (js ''id''))
       (filter (\<lambda>p. propOf p (js ''isKiller'') = Some (JBool True)) ps)"

section \<open>Example runs\<close>

text \<open>
  A request for four players, served in two batches. In the first environment the second
  batch, asked for one player, returns two. In the second one every reply is as asked,
  the catalog holds one record, and the last stage names a killer of its own.
\<close>

definition fourPlayersBody :: request where
  "fourPlayersBody =
     \<lparr>caseType = js ''robo'', suspects = 4, clues = 5, scenario = Some (js ''hotel''),
      customScenario = None, difficulty = js ''facil'', style = None, language = None,
      playerNames = [], playerGenders = []\<rparr>"

definition shortBatchReplies :: "nat \<Rightarrow> jsstring" where
  \<open>shortBatchReplies i =
     (if i = 0 then js ''{"caseTitle":"El robo"}''
      else if i = 1 then js ''{"players":[{"id":"player-1"},{"id":"player-2"},{"id":"player-3"}]}''
      else js ''{"players":[{"id":"player-4"},{"id":"player-5"}]}'')\<close>

definition shortBatchEnv :: env where
  "shortBatchEnv =
     \<lparr>random = (\<lambda>i. 0), apiKeyDefined = True,
      getSuspectsForScene = (\<lambda>opts. Inr []),
      selectWeapon = (\<lambda>opts. Inr None),
      chat = (\<lambda>i. Reply (Some (shortBatchReplies i)))\<rparr>"

definition tinyCatalog :: "suspect list" where
  "tinyCatalog = [chefRecord]"

definition goodReplies :: "nat \<Rightarrow> jsstring" where
  \<open>goodReplies i =
     (if i = 0 then js ''{"caseTitle":"El robo"}''
      else if i = 1 then
        js ''{"players":[{"id":"player-1","isKiller":false},{"id":"player-2","isKiller":true},{"id":"player-3","isKiller":false}]}''
      else if i = 2 then js ''{"players":[{"id":"player-4","isKiller":false}]}''
      else js ''{"hiddenContext":{"killerId":"player-9"}}'')\<close>

definition goodEnv :: env where
  "goodEnv =
     \<lparr>random = (\<lambda>i. 1 / 4), apiKeyDefined = True,
      getSuspectsForScene = (\<lambda>opts. Inr tinyCatalog),
      selectWeapon = (\<lambda>opts. Inr None),
      chat = (\<lambda>i. Reply (Some (goodReplies i)))\<rparr>"

definition goodPlayers :: "json list" where
  "goodPlayers =
     [JObject [(js ''id'', JString (js ''player-1'')), (js ''isKiller'', JBool False),
               (js ''photo'', JString (js ''https://img/1.png''))],
      JObject [(js ''id'', JString (js ''player-2'')), (js ''isKiller'', JBool True)],
      JObject [(js ''id'', JString (js ''player-3'')), (js ''isKiller'', JBool False)],
      JObject [(js ''id'', JString (js ''player-4'')), (js ''isKiller'', JBool False)]]"

definition goodDocument :: "int \<Rightarrow> case_response" where
  "goodDocument killer =
     \<lparr>caseTitle = Some (JString (js ''El robo'')), caseDescription = None, victim = None,
      players = goodPlayers, rweapon = None,
      hiddenContext = JObject [(js ''killerId'', JString (playerId killer))],
      rconfig = \<lparr>cfgCaseType = js ''robo'', totalClues = 5, cfgScenario = js ''hotel'',
                 cfgCustomScenario = None, cfgDifficulty = js ''facil''\<rparr>\<rparr>"

definition goodTrace :: "int \<Rightarrow> event list" where
  "goodTrace killer =
     [CatalogQuery \<lparr>count = 4, scene = Some (js ''hotel''), ostyle = None, preferredGenders = None\<rparr>,
      ChatCall (CoreStage killer),
      ChatCall (BatchStage 0 3 [1, 2, 3] killer),
      ChatCall (BatchStage 3 1 [4] killer),
      ChatCall (HiddenStage killer)]"

text \<open>
  A request for two players, and a generation service that returns two players with the
  same identifier, both marked as the killer.
\<close>

definition twoPlayersBody :: request where
  "twoPlayersBody = fourPlayersBody\<lparr>suspects := 2\<rparr>"

definition driftReplies :: "nat \<Rightarrow> jsstring" where
  \<open>driftReplies i =
     (if i = 0 then js ''{"caseTitle":"El robo"}''
      else if i = 1 then js ''{"players":[{"id":"x","isKiller":true},{"id":"x","isKiller":true}]}''
      else js ''{"hiddenContext":{}}'')\<close>

definition driftEnv :: env where
  "driftEnv =
     \<lparr>random = (\<lambda>i. 0), apiKeyDefined = True,
      getSuspectsForScene = (\<lambda>opts. Inr []),
      selectWeapon = (\<lambda>opts. Inr None),
      chat = (\<lambda>i. Reply (Some (driftReplies i)))\<rparr>"

definition driftDocument :: case_response where
  "driftDocument =
     \<lparr>caseTitle = Some (JString (js ''El robo'')), caseDescription = None, victim = None,
      players = [JObject [(js ''id'', JString (js ''x'')), (js ''isKiller'', JBool True)],
                 JObject [(js ''id'', JString (js ''x'')), (js ''isKiller'', JBool True)]],
      rweapon = None,
      hiddenContext = JObject [(js ''killerId'', JString (js ''player-1''))],
      rconfig = \<lparr>cfgCaseType = js ''robo'', totalClues = 5, cfgScenario = js ''hotel'',
                 cfgCustomScenario = None, cfgDifficulty = js ''facil''\<rparr>\<rparr>"

definition driftTrace :: "event list" where
  "driftTrace =
     [CatalogQuery \<lparr>count = 2, scene = Some (js ''hotel''), ostyle = None, preferredGenders = None\<rparr>,
      ChatCall (CoreStage 1),
      ChatCall (BatchStage 0 2 [1, 2] 1),
      ChatCall (HiddenStage 1)]"

definition shortBatchTrace :: "event list" where
  "shortBatchTrace =
     [CatalogQuery \<lparr>count = 4, scene = Some (js ''hotel''), ostyle = None, preferredGenders = None\<rparr>,
      ChatCall (CoreStage 1),
      ChatCall (BatchStage 0 3 [1, 2, 3] 1),
      ChatCall (BatchStage 3 1 [4] 1)]"

definition shortBatchPlayers :: "json list" where
  "shortBatchPlayers =
     [JObject [(js ''id'', JString (js ''player-4''))],
      JObject [(js ''id'', JString (js ''player-5''))]]"

section \<open>The calls of a run\<close>

lemma chatCompletion_eq:
  "chatCompletion env st w =
     ((case chat env (chatCalls w) of
         CallFails m \<Rightarrow> Inl (ServiceError m)
       | Reply c \<Rightarrow>
           (case c of
              None \<Rightarrow> Inl NoResponse
            | Some response \<Rightarrow> if response = [] then Inl NoResponse else Inr response)),
      called w st)"
  by (simp add: chatCompletion_def called_def Let_def split: llm_reply.splits option.splits)

lemma generatePlayersBatch_cases:
  assumes "generatePlayersBatch env body killer existing b k w = (r, w')"
  shows "(w' = w \<and> (\<exists>e. r = Inl e)) \<or>
         (w' = called w (BatchStage b k (batchIndices b k (suspects body)) killer)
          \<and> r = batchReply env (chatCalls w) k)"
  using assms
  by (auto simp: generatePlayersBatch_def chatCompletion_eq batchReply_def
      split: sum.splits if_splits llm_reply.splits option.splits)

lemma playersLoop_trace:
  "playersLoop env body killer b existing w = (r, w') \<Longrightarrow>
   \<exists>sts. events w' = events w @ map ChatCall sts
      \<and> chatCalls w' = chatCalls w + length sts
      \<and> (\<forall>j<length sts. \<exists>b' k'.
            sts ! j = BatchStage b' k' (batchIndices b' k' (suspects body)) killer
            \<and> (\<forall>e. batchReply env (chatCalls w + j) k' = Inl e \<longrightarrow>
                  Suc j = length sts \<and> r = Inl e))"
proof (induction env body killer b existing w arbitrary: r w' rule: playersLoop.induct)
  case (1 env body killer b existing w)
  show ?case
  proof (cases "int b < suspects body")
    case False
    then have "w' = w" using "1.prems" by (simp add: playersLoop.simps)
    then show ?thesis by (intro exI [of _ "[]"]) simp
  next
    case True
    define k where "k = min 3 (suspects body - int b)"
    obtain r1 w1 where g: "generatePlayersBatch env body killer existing b k w = (r1, w1)"
      by (cases "generatePlayersBatch env body killer existing b k w") auto
    define st where "st = BatchStage b k (batchIndices b k (suspects body)) killer"
    from generatePlayersBatch_cases [OF g]
    consider (nocall) e where "w1 = w" "r1 = Inl e"
      | (call) "w1 = called w st" "r1 = batchReply env (chatCalls w) k"
      unfolding st_def by blast
    then show ?thesis
    proof cases
      case nocall
      then have "w' = w" using "1.prems" True g
        by (simp add: playersLoop.simps k_def)
      then show ?thesis by (intro exI [of _ "[]"]) simp
    next
      case call
      show ?thesis
      proof (cases r1)
        case (Inl e)
        then have "r = Inl e" "w' = w1" using "1.prems" True g
          by (simp_all add: playersLoop.simps k_def)
        then show ?thesis using call Inl
          by (intro exI [of _ "[st]"]) (auto simp: called_def st_def)
      next
        case (Inr batch)
        then have p: "playersLoop env body killer (b + 3) (existing @ batch) w1 = (r, w')"
          using "1.prems" True g by (simp add: playersLoop.simps k_def)
        from "1.IH" [OF True g [unfolded k_def, symmetric] _ p] Inr
        obtain sts where s: "events w' = events w1 @ map ChatCall sts"
          "chatCalls w' = chatCalls w1 + length sts"
          "\<forall>j<length sts. \<exists>b' k'.
              sts ! j = BatchStage b' k' (batchIndices b' k' (suspects body)) killer
              \<and> (\<forall>e. batchReply env (chatCalls w1 + j) k' = Inl e \<longrightarrow>
                    Suc j = length sts \<and> r = Inl e)"
          by auto
        have "\<exists>b' k'. (st # sts) ! j = BatchStage b' k' (batchIndices b' k' (suspects body)) killer
              \<and> (\<forall>e. batchReply env (chatCalls w + j) k' = Inl e \<longrightarrow>
                    Suc j = length (st # sts) \<and> r = Inl e)" if "j < length (st # sts)" for j
        proof (cases j)
          case 0
          then show ?thesis using call(2) Inr by (auto simp: st_def)
        next
          case (Suc j')
          then show ?thesis using s(3) that call(1) by (auto simp: called_def)
        qed
        then show ?thesis using s(1,2) call(1)
          by (intro exI [of _ "st # sts"]) (auto simp: called_def)
      qed
    qed
  qed
qed

lemma chatStages_append: "chatStages (xs @ ys) = chatStages xs @ chatStages ys"
  by (induction xs rule: chatStages.induct) auto

lemma chatStages_map: "chatStages (map ChatCall sts) = sts"
  by (induction sts) auto

lemma generateImpostorCaseCore_cases:
  assumes "generateImpostorCaseCore env d w = (r, w')"
  shows "(w' = w \<and> (\<exists>e. r = Inl e)) \<or> w' = called w (CoreStage d)"
  using assms
  by (auto simp: generateImpostorCaseCore_def chatCompletion_eq getOpenAIClient_def
      split: sum.splits if_splits)

lemma generateImpostorHiddenContext_cases:
  assumes "generateImpostorHiddenContext env k ps w = (r, w')"
  shows "(w' = w \<and> (\<exists>e. r = Inl e)) \<or> w' = called w (HiddenStage k)"
  using assms
  by (auto simp: generateImpostorHiddenContext_def chatCompletion_eq getOpenAIClient_def
      split: sum.splits if_splits)

lemma fetchWeapon_cases:
  assumes "fetchWeapon env body w = (r, w')"
  shows "chatCalls w' = chatCalls w \<and> chatStages (events w') = chatStages (events w)"
  using assms by (auto simp: fetchWeapon_def chatStages_append split: if_splits)

text \<open>
  The calls of a run to the generation service: none, or the core stage alone, or the
  core stage, the batches of the loop and then at most the last stage.
\<close>

lemma generateCase_calls:
  assumes "generateCase eng env body = (r, w)"
  shows "chatStages (events w) = []
    \<or> (\<exists>d. chatStages (events w) = [CoreStage d])
    \<or> (\<exists>d w2 rl w3 sts tail.
          playersLoop env body (randomKillerIndex (assignRoles (random env) (suspects body)))
            0 [] w2 = (rl, w3)
          \<and> chatCalls w2 = 1
          \<and> events w3 = events w2 @ map ChatCall sts
          \<and> chatStages (events w2) = [CoreStage d]
          \<and> events w = events w3 @ tail
          \<and> (tail = [] \<or> (\<exists>k. tail = [ChatCall (HiddenStage k)]))
          \<and> (\<forall>e. rl = Inl e \<longrightarrow> r = Inl e \<and> tail = [])
          \<and> (\<forall>j<length sts. \<exists>b' k'.
                sts ! j = BatchStage b' k' (batchIndices b' k' (suspects body))
                            (randomKillerIndex (assignRoles (random env) (suspects body)))
                \<and> (\<forall>e. batchReply env (Suc j) k' = Inl e \<longrightarrow>
                      Suc j = length sts \<and> rl = Inl e)))"
proof -
  define k where "k = randomKillerIndex (assignRoles (random env) (suspects body))"
  define d where "d = discoveredByPlayerIndex (assignRoles (random env) (suspects body))"
  define w0 where "w0 = world0\<lparr>events := [CatalogQuery (suspectOptions body)]\<rparr>"
  have w0: "chatCalls w0 = 0" "chatStages (events w0) = []"
    by (simp_all add: w0_def world0_def)
  show ?thesis
  proof (cases "getSuspectsForScene env (suspectOptions body)")
    case (Inl e)
    then have "w = w0" using assms by (simp add: generateCase_def w0_def Let_def)
    then show ?thesis using w0 by simp
  next
    case sus: (Inr selectedSuspects)
    obtain rw w1 where fw: "fetchWeapon env body w0 = (rw, w1)"
      by (cases "fetchWeapon env body w0") auto
    from fetchWeapon_cases [OF fw] w0 have w1: "chatCalls w1 = 0" "chatStages (events w1) = []"
      by simp_all
    show ?thesis
    proof (cases rw)
      case (Inl e)
      then have "w = w1" using assms sus fw by (simp add: generateCase_def w0_def Let_def)
      then show ?thesis using w1 by simp
    next
      case wp: (Inr selectedWeapon)
      obtain rc w2 where co: "generateImpostorCaseCore env d w1 = (rc, w2)"
        by (cases "generateImpostorCaseCore env d w1") auto
      show ?thesis
      proof (cases rc)
        case (Inl e)
        then have "w = w2" using assms sus fw wp co
          by (simp add: generateCase_def w0_def Let_def d_def)
        then show ?thesis using generateImpostorCaseCore_cases [OF co] w1
          by (auto simp: called_def chatStages_append)
      next
        case core: (Inr caseCore)
        with generateImpostorCaseCore_cases [OF co] have w2: "w2 = called w1 (CoreStage d)"
          by auto
        then have w2': "chatCalls w2 = 1" "chatStages (events w2) = [CoreStage d]"
          using w1 by (simp_all add: called_def chatStages_append)
        obtain rl w3 where lo: "playersLoop env body k 0 [] w2 = (rl, w3)"
          by (cases "playersLoop env body k 0 [] w2") auto
        from playersLoop_trace [OF lo] w2'(1) obtain sts where
          sts: "events w3 = events w2 @ map ChatCall sts"
          and bat: "\<forall>j<length sts. \<exists>b' k'.
                sts ! j = BatchStage b' k' (batchIndices b' k' (suspects body)) k
                \<and> (\<forall>e. batchReply env (Suc j) k' = Inl e \<longrightarrow>
                      Suc j = length sts \<and> rl = Inl e)"
          by auto
        have g: "generateCase eng env body =
            (case rl of
               Inl e \<Rightarrow> (Inl e, w3)
             | Inr generated \<Rightarrow>
                 (case postProcessPlayers eng body selectedSuspects generated of
                    Inl e \<Rightarrow> (Inl e, w3)
                  | Inr allPlayers \<Rightarrow>
                      (case generateImpostorHiddenContext env k allPlayers w3 of
                         (Inl e, w4) \<Rightarrow> (Inl e, w4)
                       | (Inr hc, w4) \<Rightarrow>
                           (buildResponse body k selectedWeapon caseCore allPlayers hc, w4))))"
          using sus fw wp co core lo
          unfolding generateCase_def w0_def Let_def d_def k_def by simp
        have "\<exists>tail. events w = events w3 @ tail
            \<and> (tail = [] \<or> (\<exists>k. tail = [ChatCall (HiddenStage k)]))
            \<and> (\<forall>e. rl = Inl e \<longrightarrow> r = Inl e \<and> tail = [])"
        proof (cases rl)
          case (Inl e)
          then show ?thesis using g assms by simp
        next
          case gen: (Inr generated)
          show ?thesis
          proof (cases "postProcessPlayers eng body selectedSuspects generated")
            case (Inl e)
            then show ?thesis using g assms gen by simp
          next
            case pp: (Inr allPlayers)
            obtain rh w4 where hi: "generateImpostorHiddenContext env k allPlayers w3 = (rh, w4)"
              by (cases "generateImpostorHiddenContext env k allPlayers w3") auto
            have "w = w4" using g assms gen pp hi by (simp split: sum.splits)
            then show ?thesis using generateImpostorHiddenContext_cases [OF hi] gen
              by (auto simp: called_def)
          qed
        qed
        then show ?thesis using lo w2' sts bat unfolding k_def by blast
      qed
    qed
  qed
qed

lemma parseAndRepairJSON_empty: "parseAndRepairJSON [] = Inl IncompleteJSON"
  by (simp add: parseAndRepairJSON_def closeObject_def trim_def endsWith_def lastIndexOf_def
      balanceRepair_def)

lemma playersLoop_replied:
  "playersLoop env body k b existing w = (Inr gen, w') \<Longrightarrow>
   \<exists>rest. repliedPlayers env (suspects body) b (chatCalls w) = Inr rest \<and> gen = existing @ rest"
proof (induction env body k b existing w arbitrary: gen w' rule: playersLoop.induct)
  case (1 env body k b existing w)
  show ?case
  proof (cases "int b < suspects body")
    case False
    then show ?thesis using "1.prems"
      by (simp add: playersLoop.simps repliedPlayers.simps)
  next
    case True
    define sz where "sz = min 3 (suspects body - int b)"
    obtain r1 w1 where gb: "generatePlayersBatch env body k existing b sz w = (r1, w1)"
      by (cases "generatePlayersBatch env body k existing b sz w") auto
    from "1.prems" True gb obtain batch where r1: "r1 = Inr batch"
      and p: "playersLoop env body k (b + 3) (existing @ batch) w1 = (Inr gen, w')"
      by (cases r1) (auto simp: playersLoop.simps [of env body k b] sz_def)
    from generatePlayersBatch_cases [OF gb] r1
    have w1: "chatCalls w1 = Suc (chatCalls w)"
      and br: "batchReply env (chatCalls w) sz = Inr batch"
      by (auto simp: called_def)
    from "1.IH" [OF True gb [unfolded sz_def, symmetric] r1 p] w1
    obtain rest where "repliedPlayers env (suspects body) (b + 3) (Suc (chatCalls w)) = Inr rest"
      and "gen = (existing @ batch) @ rest" by auto
    then show ?thesis using True br
      by (simp add: repliedPlayers.simps [of env _ b] sz_def)
  qed
qed

lemma repliedPlayers_random:
  "repliedPlayers (env\<lparr>random := r\<rparr>) n b i = repliedPlayers env n b i"
proof (induction env n b i rule: repliedPlayers.induct)
  case (1 env n b i)
  have br: "batchReply (env\<lparr>random := r\<rparr>) i (min 3 (n - int b))
      = batchReply env i (min 3 (n - int b))"
    by (simp add: batchReply_def)
  show ?case
  proof (cases "int b < n")
    case False
    then show ?thesis by (simp add: repliedPlayers.simps)
  next
    case True
    show ?thesis
    proof (cases "batchReply env i (min 3 (n - int b))")
      case (Inl e)
      with True br show ?thesis
        by (simp add: repliedPlayers.simps [of _ n b i])
    next
      case (Inr batch)
      from "1.IH" [OF True Inr] True br Inr show ?thesis
        by (simp add: repliedPlayers.simps [of _ n b i])
    qed
  qed
qed

lemma upto_next_batch:
  assumes "b < n"
  shows "[b + 1 .. min (b + min 3 (n - b)) n] @ [b + 3 + 1 .. n] = [b + 1 .. (n::int)]"
proof (cases "n \<le> b + 3")
  case True
  then have "min (b + min 3 (n - b)) n = n" using assms by (simp add: min_def)
  moreover have "[b + 3 + 1 .. n] = []" using True by simp
  ultimately show ?thesis by simp
next
  case False
  then have "[b + 1 .. n] = [b + 1 .. b + 3] @ [b + 3 + 1 .. n]"
    by (intro upto_split2) simp_all
  then show ?thesis using False by (simp add: min_def)
qed

lemma playersLoop_checklists:
  "playersLoop env body k b existing w = (Inr g, w') \<Longrightarrow>
   \<exists>sts. events w' = events w @ map ChatCall sts
      \<and> concat (map checklist sts) = [int b + 1 .. suspects body]"
proof (induction env body k b existing w arbitrary: g w' rule: playersLoop.induct)
  case (1 env body k b existing w)
  show ?case
  proof (cases "int b < suspects body")
    case False
    then have "w' = w" using "1.prems" by (simp add: playersLoop.simps)
    then show ?thesis using False by (intro exI [of _ "[]"]) simp
  next
    case True
    define sz where "sz = min 3 (suspects body - int b)"
    define st where "st = BatchStage b sz (batchIndices b sz (suspects body)) k"
    obtain r1 w1 where gb: "generatePlayersBatch env body k existing b sz w = (r1, w1)"
      by (cases "generatePlayersBatch env body k existing b sz w") auto
    from "1.prems" True gb obtain batch where r1: "r1 = Inr batch"
      and p: "playersLoop env body k (b + 3) (existing @ batch) w1 = (Inr g, w')"
      by (cases r1) (auto simp: playersLoop.simps [of env body k b] sz_def)
    from generatePlayersBatch_cases [OF gb] r1 have w1: "w1 = called w st"
      by (auto simp: st_def)
    from "1.IH" [OF True gb [unfolded sz_def, symmetric] r1 p]
    obtain sts where s: "events w' = events w1 @ map ChatCall sts"
      "concat (map checklist sts) = [int (b + 3) + 1 .. suspects body]" by auto
    have "checklist st @ concat (map checklist sts) = [int b + 1 .. suspects body]"
      using upto_next_batch [OF True] s(2)
      by (simp add: st_def batchIndices_def sz_def)
    then show ?thesis using s(1) w1
      by (intro exI [of _ "st # sts"]) (simp add: called_def)
  qed
qed

section \<open>What the steps after the batches change\<close>

lemma map_of_objSet:
  "map_of (objSet ms k v) k' = (if k' = k then Some v else map_of ms k')"
  by (induction ms) auto

lemma setProp_frame:
  "setProp p k v = Inr p' \<Longrightarrow> k' \<noteq> k \<Longrightarrow> propOf p' k' = propOf p k'"
  by (cases p) (auto simp: propOf_def map_of_objSet)

lemma applyNames_frame:
  "applyNames ns ps = Inr ps' \<Longrightarrow> k \<noteq> js ''name'' \<Longrightarrow>
   map (\<lambda>p. propOf p k) ps' = map (\<lambda>p. propOf p k) ps"
proof (induction ns ps arbitrary: ps' rule: applyNames.induct)
  case (3 n ns p ps)
  then show ?case
    by (auto split: sum.splits if_splits dest: setProp_frame)
qed auto

lemma matchOne_frame:
  "matchOne eng rem used gen = Inr (gen', used') \<Longrightarrow> k \<noteq> js ''photo'' \<Longrightarrow>
   propOf gen' k = propOf gen k"
  by (auto simp: matchOne_def Let_def split: sum.splits option.splits if_splits prod.splits
      dest: setProp_frame)

lemma matchLoop_frame:
  "matchLoop eng rem used gens = Inr gens' \<Longrightarrow> k \<noteq> js ''photo'' \<Longrightarrow>
   map (\<lambda>p. propOf p k) gens' = map (\<lambda>p. propOf p k) gens"
proof (induction gens arbitrary: used gens')
  case Nil
  then show ?case by simp
next
  case (Cons gen gens)
  then show ?case
    by (auto split: sum.splits prod.splits dest: matchOne_frame)
qed

lemma postProcessPlayers_frame:
  assumes "postProcessPlayers eng body sus gen = Inr ps"
    and "k \<noteq> js ''name''" and "k \<noteq> js ''photo''"
  shows "map (\<lambda>p. propOf p k) ps = map (\<lambda>p. propOf p k) gen"
    and "int (length gen) = suspects body"
proof -
  from assms(1) obtain named where
    n: "(if playerNames body \<noteq> [] then applyNames (playerNames body) gen else Inr gen) = Inr named"
    and m: "matchLoop eng sus [] named = Inr ps" and l: "int (length gen) = suspects body"
    by (auto simp: postProcessPlayers_def matchPhotos_def split: if_splits sum.splits)
  from n assms(2) have "map (\<lambda>p. propOf p k) named = map (\<lambda>p. propOf p k) gen"
    by (auto split: if_splits dest: applyNames_frame)
  with matchLoop_frame [OF m assms(3)] show "map (\<lambda>p. propOf p k) ps = map (\<lambda>p. propOf p k) gen"
    by simp
  show "int (length gen) = suspects body" by (rule l)
qed

lemma buildResponse_fields:
  assumes "buildResponse body k wpn core ps hc = Inr doc"
  shows "players doc = ps"
    and "\<exists>hc'. hiddenContext doc = spreadKillerId hc' k"
  using assms
  by (auto simp: buildResponse_def split: sum.splits prod.splits)

lemma spreadKillerId_killerId:
  "propOf (spreadKillerId hc k) (js ''killerId'') = Some (JString (playerId k))"
  by (simp add: spreadKillerId_def propOf_def map_of_objSet Let_def)

text \<open>What a run that answers with status 200 went through.\<close>

lemma handler_success:
  assumes "handler eng env body = (Http200 doc, tr)"
  shows "\<exists>sus wpn core hc d w2 gen w3.
           getSuspectsForScene env (suspectOptions body) = Inr sus
         \<and> playersLoop env body (randomKillerIndex (assignRoles (random env) (suspects body)))
              0 [] w2 = (Inr gen, w3)
         \<and> chatCalls w2 = 1
         \<and> chatStages (events w2) = [CoreStage d]
         \<and> postProcessPlayers eng body sus gen = Inr (players doc)
         \<and> buildResponse body (randomKillerIndex (assignRoles (random env) (suspects body)))
              wpn core (players doc) hc = Inr doc
         \<and> tr = events w3 @ [ChatCall (HiddenStage
                  (randomKillerIndex (assignRoles (random env) (suspects body))))]"
proof -
  define k where "k = randomKillerIndex (assignRoles (random env) (suspects body))"
  define d where "d = discoveredByPlayerIndex (assignRoles (random env) (suspects body))"
  define w0 where "w0 = world0\<lparr>events := [CatalogQuery (suspectOptions body)]\<rparr>"
  have w0: "chatCalls w0 = 0" "chatStages (events w0) = []"
    by (simp_all add: w0_def world0_def)
  from assms obtain w where g: "generateCase eng env body = (Inr doc, w)" and tr: "tr = events w"
    by (auto simp: handler_def split: if_splits prod.splits sum.splits)
  obtain sus where sus: "getSuspectsForScene env (suspectOptions body) = Inr sus"
    using g by (cases "getSuspectsForScene env (suspectOptions body)")
      (auto simp: generateCase_def Let_def)
  obtain rw w1 where fw: "fetchWeapon env body w0 = (rw, w1)"
    by (cases "fetchWeapon env body w0") auto
  from fetchWeapon_cases [OF fw] w0 have w1: "chatCalls w1 = 0" "chatStages (events w1) = []"
    by simp_all
  obtain wpn where wpn: "rw = Inr wpn"
    using g sus fw unfolding generateCase_def Let_def w0_def by (cases rw) auto
  obtain rc w2 where co: "generateImpostorCaseCore env d w1 = (rc, w2)"
    by (cases "generateImpostorCaseCore env d w1") auto
  obtain core where core: "rc = Inr core"
    using g sus fw wpn co unfolding generateCase_def Let_def w0_def d_def by (cases rc) auto
  with generateImpostorCaseCore_cases [OF co] have "w2 = called w1 (CoreStage d)" by auto
  then have w2: "chatCalls w2 = 1" "chatStages (events w2) = [CoreStage d]"
    using w1 by (simp_all add: called_def chatStages_append)
  obtain rl w3 where lo: "playersLoop env body k 0 [] w2 = (rl, w3)"
    by (cases "playersLoop env body k 0 [] w2") auto
  have g': "(case rl of
               Inl e \<Rightarrow> (Inl e, w3)
             | Inr generated \<Rightarrow>
                 (case postProcessPlayers eng body sus generated of
                    Inl e \<Rightarrow> (Inl e, w3)
                  | Inr allPlayers \<Rightarrow>
                      (case generateImpostorHiddenContext env k allPlayers w3 of
                         (Inl e, w4) \<Rightarrow> (Inl e, w4)
                       | (Inr hc, w4) \<Rightarrow>
                           (buildResponse body k wpn core allPlayers hc, w4)))) = (Inr doc, w)"
    using g sus fw wpn co core lo
    unfolding generateCase_def w0_def Let_def d_def k_def by simp
  then obtain gen where gen: "rl = Inr gen" by (cases rl) auto
  from g' gen obtain ps where pp: "postProcessPlayers eng body sus gen = Inr ps"
    by (cases "postProcessPlayers eng body sus gen") auto
  obtain rh w4 where hi: "generateImpostorHiddenContext env k ps w3 = (rh, w4)"
    by (cases "generateImpostorHiddenContext env k ps w3") auto
  from g' gen pp hi obtain hc where hc: "rh = Inr hc"
    and br: "buildResponse body k wpn core ps hc = Inr doc" and ww: "w = w4"
    by (cases rh) auto
  from generateImpostorHiddenContext_cases [OF hi] hc have "w4 = called w3 (HiddenStage k)"
    by auto
  then have "tr = events w3 @ [ChatCall (HiddenStage k)]"
    using tr ww by (simp add: called_def)
  moreover have "players doc = ps" using buildResponse_fields(1) [OF br] .
  ultimately show ?thesis
    using sus lo gen w2 pp br unfolding k_def by blast
qed

lemma handler_players:
  assumes "handler eng env body = (Http200 doc, tr)"
  shows "\<exists>sus gen. getSuspectsForScene env (suspectOptions body) = Inr sus
           \<and> generatedPlayers env body = Inr gen
           \<and> postProcessPlayers eng body sus gen = Inr (players doc)"
proof -
  from handler_success [OF assms] obtain sus w2 gen w3 where
    s: "getSuspectsForScene env (suspectOptions body) = Inr sus"
    and l: "playersLoop env body (randomKillerIndex (assignRoles (random env) (suspects body)))
              0 [] w2 = (Inr gen, w3)"
    and c: "chatCalls w2 = 1"
    and p: "postProcessPlayers eng body sus gen = Inr (players doc)"
    by (elim exE conjE) (rule that)
  from playersLoop_replied [OF l] c
  have "generatedPlayers env body = Inr gen" by (simp add: generatedPlayers_def)
  with s p show ?thesis by blast
qed

lemma culprits_cong:
  assumes "map (\<lambda>p. propOf p (js ''isKiller'')) ps = map (\<lambda>p. propOf p (js ''isKiller'')) qs"
    and "map (\<lambda>p. propOf p (js ''id'')) ps = map (\<lambda>p. propOf p (js ''id'')) qs"
  shows "culprits ps = culprits qs"
  using assms
proof (induction ps arbitrary: qs)
  case Nil
  then show ?case by (simp add: culprits_def)
next
  case (Cons p ps)
  then obtain q qs' where q: "qs = q # qs'" by (cases qs) auto
  with Cons.prems have "culprits ps = culprits qs'" by (intro Cons.IH) simp_all
  then show ?case using Cons.prems q by (simp add: culprits_def)
qed

lemma names_differ:
  "js ''id'' \<noteq> js ''name''" "js ''id'' \<noteq> js ''photo''"
  "js ''isKiller'' \<noteq> js ''name''" "js ''isKiller'' \<noteq> js ''photo''"
  by (simp_all add: js_def)

section \<open>The example runs, evaluated\<close>

lemma floor_rat_numeral:
  "\<lfloor>(numeral a :: rat) / numeral b\<rfloor> = numeral a div numeral b"
  using floor_divide_of_int_eq [of "numeral a" "numeral b", where ?'a = rat] by simp

lemmas number_defs =
  roundDouble_def roundFinite_def roundHalfEven_def pow2_def binaryExponent.simps Let_def
  floor_rat_numeral

text \<open>
  The draw \<open>0.3333333333333333\<close> times \<open>3\<close> is a little less than \<open>1\<close> and rounds to the double
  \<open>1\<close>: the index is \<open>2\<close>.
\<close>

lemma draw_product_rounded:
  "randomIndex (6004799503160661 / 18014398509481984) 3 = 2"
  by (simp add: randomIndex_def number_defs)

lemmas parse_defs =
  parseAndRepairJSON_def closeObject_def balanceQuotes_def parseWithRetry_def trim_def
  isTrimSpace_def endsWith_def lastIndexOf_def quoteCount_def
  JSON_parse_def lexToken_def isJsonSpace_def isDigit_def lexNumber_def lexUnsigned_def
  lexInt_def lexFrac_def lexExp_def lexExpDigits_def unescape_def js_def

lemmas run_defs =
  handler_def generateCase_def suspectOptions_def weaponOptions_def fetchWeapon_def
  strTruthy_def world0_def assignRoles_def randomIndex_def number_defs
  generateImpostorCaseCore_def getOpenAIClient_def chatCompletion_def
  playersLoop.simps generatePlayersBatch_def batchIndices_def checkPlayers_def showThrows_def
  postProcessPlayers_def matchPhotos_def matchOne_def
  generateImpostorHiddenContext_def setKillerId_def spreadKillerId_def assignWeaponPhoto_def
  buildResponse_def buildConfig_def playerId_def intToString_def natToString.simps

lemmas match_defs =
  scoreMatch_def genRoleOf_def origOccEsOf_def origOccEnOf_def orEmptyToString_def
  exampleEngine_def asciiLower_def chefRecord_def tinyCatalog_def

lemma shortBatch_run:
  "handler exampleEngine shortBatchEnv fourPlayersBody =
     (Http500 (js ''Failed to generate impostor case'') (BatchCountMismatch 2 1), shortBatchTrace)"
  by (simp add: run_defs parse_defs fourPlayersBody_def shortBatchEnv_def shortBatchReplies_def
      shortBatchTrace_def upto.simps)

lemma goodEnv_run:
  "handler exampleEngine goodEnv fourPlayersBody = (Http200 (goodDocument 2), goodTrace 2)"
  by (simp add: run_defs parse_defs match_defs fourPlayersBody_def goodEnv_def goodReplies_def
      goodDocument_def goodTrace_def goodPlayers_def upto.simps)

lemma goodEnv_run':
  "handler exampleEngine (goodEnv\<lparr>random := (\<lambda>i. 3 / 4)\<rparr>) fourPlayersBody
     = (Http200 (goodDocument 4), goodTrace 4)"
  by (simp add: run_defs parse_defs match_defs fourPlayersBody_def goodEnv_def goodReplies_def
      goodDocument_def goodTrace_def goodPlayers_def upto.simps)

lemma driftEnv_run:
  "handler exampleEngine driftEnv twoPlayersBody = (Http200 driftDocument, driftTrace)"
  by (simp add: run_defs parse_defs match_defs fourPlayersBody_def twoPlayersBody_def driftEnv_def
      driftReplies_def driftDocument_def driftTrace_def upto.simps)

section \<open>White space around a JSON text\<close>

text \<open>
  \<open>JSON.parse\<close> skips TAB, LF, CR and SP around the tokens, so a text and its \<open>trim\<close> have
  the same tokens whenever the text has tokens at all: the other characters \<open>trim\<close> removes
  are no JSON white space, and a text that starts or ends with one of them is no JSON.
\<close>

lemma trimSpace_range: "isTrimSpace c \<Longrightarrow> c < 33 \<or> 159 < c"
  unfolding isTrimSpace_def by linarith

lemma trimSpace_inert:
  assumes "isTrimSpace c"
  shows "\<not> isDigit c" "c \<noteq> QUOTE" "c \<noteq> BACKSLASH" "c \<noteq> 45" "c \<noteq> 46" "c \<noteq> 101" "c \<noteq> 69"
    "c \<noteq> 43" "c \<noteq> 117" "hexValue c = None" "unescape c = None"
    "c \<noteq> LBRACE" "c \<noteq> RBRACE" "c \<noteq> LBRACKET" "c \<noteq> RBRACKET" "c \<noteq> COLON" "c \<noteq> COMMA"
    "c \<noteq> 116" "c \<noteq> 102" "c \<noteq> 110" "c \<noteq> 48"
  using trimSpace_range [OF assms] by (auto simp: isDigit_def hexValue_def unescape_def)

lemma jsonSpace_trimSpace: "isJsonSpace c \<Longrightarrow> isTrimSpace c"
  by (auto simp: isJsonSpace_def isTrimSpace_def)

lemma lexToken_trimSpace: "isTrimSpace c \<Longrightarrow> lexToken (c # cs) = None"
  by (auto simp: lexToken_def js_def dest: trimSpace_inert)

lemma tokenize_dropWhile:
  "tokenize s = Some ts \<Longrightarrow> tokenize (dropWhile isTrimSpace s) = Some ts"
proof (induction s)
  case Nil
  then show ?case by simp
next
  case (Cons c cs)
  show ?case
  proof (cases "isTrimSpace c")
    case True
    then have "isJsonSpace c"
      using Cons.prems lexToken_trimSpace [of c cs] by (auto split: if_splits)
    then show ?thesis using True Cons by simp
  next
    case False
    then show ?thesis using Cons.prems by simp
  qed
qed

lemma tokenize_spaces:
  "\<forall>c\<in>set w. isTrimSpace c \<Longrightarrow> tokenize w = Some ts \<Longrightarrow> ts = []"
proof (induction w)
  case Nil
  then show ?case by simp
next
  case (Cons c w)
  then show ?case
    using lexToken_trimSpace [of c w] by (auto split: if_splits)
qed

lemma takeWhile_digits_append:
  "\<forall>c\<in>set w. isTrimSpace c \<Longrightarrow> takeWhile isDigit (u @ w) = takeWhile isDigit u"
  by (induction u) (auto simp: takeWhile_eq_Nil_iff dest: trimSpace_inert(1))

lemma dropWhile_digits_append:
  "\<forall>c\<in>set w. isTrimSpace c \<Longrightarrow> dropWhile isDigit (u @ w) = dropWhile isDigit u @ w"
proof (induction u)
  case Nil
  then show ?case by (cases w) (auto dest: trimSpace_inert(1))
next
  case (Cons a u)
  then show ?case by simp
qed

lemma lexString_spaces: "\<forall>c\<in>set w. isTrimSpace c \<Longrightarrow> lexString w = None"
  by (induction w) (auto dest: trimSpace_inert)

lemma hex4_Some: "hex4 ds = Some u \<Longrightarrow> length ds = 4 \<and> (\<forall>d\<in>set ds. hexValue d \<noteq> None)"
  by (auto simp: hex4_def split: list.splits option.splits)

lemma hex4_take_append:
  assumes w: "\<forall>c\<in>set w. isTrimSpace c" and h: "hex4 (take 4 (u @ w)) = Some x"
  shows "4 \<le> length u"
proof (rule ccontr)
  assume "\<not> 4 \<le> length u"
  then have l: "length u < 4" by simp
  from hex4_Some [OF h] have len: "length (take 4 (u @ w)) = 4"
    and hx: "\<forall>d\<in>set (take 4 (u @ w)). hexValue d \<noteq> None" by auto
  from len l have "length u < length (take 4 (u @ w))" by simp
  then have "take 4 (u @ w) ! length u \<in> set (take 4 (u @ w))" by (rule nth_mem)
  moreover have "take 4 (u @ w) ! length u = w ! 0"
    using l len by (simp add: nth_append)
  moreover have "w \<noteq> []" using l len by auto
  then have "w ! 0 \<in> set w" by simp
  ultimately show False using w hx trimSpace_inert(10) by metis
qed

lemma lexString_backslash_spaces:
  "\<forall>c\<in>set w. isTrimSpace c \<Longrightarrow> lexString (BACKSLASH # w) = None"
  by (cases w) (simp_all add: trimSpace_inert)

lemma lexString_append:
  "\<forall>c\<in>set w. isTrimSpace c \<Longrightarrow> lexString (u @ w) = Some (t, r') \<Longrightarrow>
   \<exists>r. lexString u = Some (t, r) \<and> r' = r @ w"
proof (induction u arbitrary: t r' rule: lexString.induct)
  case 1
  then show ?case using lexString_spaces by simp
next
  case (2 c cs)
  note w = "2.prems"(1)
  show ?case
  proof (cases "c = QUOTE")
    case True
    then show ?thesis using "2.prems" by simp
  next
    case nq: False
    show ?thesis
    proof (cases "c = BACKSLASH")
      case True
      show ?thesis
      proof (cases cs)
        case Nil
        then show ?thesis using "2.prems"(2) True lexString_backslash_spaces [OF w] by simp
      next
        case (Cons e cs')
        show ?thesis
        proof (cases "e = 117")
          case u: True
          define X where "X = take 4 (cs' @ w)"
          define Y where "Y = drop 4 (cs' @ w)"
          have "lexString ((c # cs) @ w) =
              (case hex4 X of None \<Rightarrow> None
               | Some x \<Rightarrow> map_option (\<lambda>(s, r). (x # s, r)) (lexString Y))"
            using True Cons u unfolding X_def Y_def by simp
          with "2.prems"(2) have "(case hex4 X of None \<Rightarrow> None
               | Some x \<Rightarrow> map_option (\<lambda>(s, r). (x # s, r)) (lexString Y)) = Some (t, r')"
            by simp
          then obtain x t0 where
            h: "hex4 X = Some x" and l: "lexString Y = Some (t0, r')" and t: "t = x # t0"
            by (auto split: option.splits)
          note h = h [unfolded X_def] and l = l [unfolded Y_def]
          from hex4_take_append [OF w h] have len: "4 \<le> length cs'" .
          then have tk: "take 4 (cs' @ w) = take 4 cs'" and dr: "drop 4 (cs' @ w) = drop 4 cs' @ w"
            by simp_all
          have h': "hex4 (take 4 cs') = Some x" using h unfolding tk .
          from "2.IH"(1) [OF nq True Cons u h' w l [unfolded dr]]
          obtain r where "lexString (drop 4 cs') = Some (t0, r)" "r' = r @ w" by auto
          then show ?thesis using True Cons u t h' by simp
        next
          case nu: False
          define Y where "Y = cs' @ w"
          have "lexString ((c # cs) @ w) =
              (case unescape e of None \<Rightarrow> None
               | Some x \<Rightarrow> map_option (\<lambda>(s, r). (x # s, r)) (lexString Y))"
            using True Cons nu unfolding Y_def by simp
          with "2.prems"(2) have "(case unescape e of None \<Rightarrow> None
               | Some x \<Rightarrow> map_option (\<lambda>(s, r). (x # s, r)) (lexString Y)) = Some (t, r')"
            by simp
          then obtain x t0 where
            h: "unescape e = Some x" and l: "lexString Y = Some (t0, r')" and t: "t = x # t0"
            by (auto split: option.splits)
          note l = l [unfolded Y_def]
          from "2.IH"(2) [OF nq True Cons nu h w l]
          obtain r where "lexString cs' = Some (t0, r)" "r' = r @ w" by auto
          then show ?thesis using True Cons nu t h by simp
        qed
      qed
    next
      case nb: False
      show ?thesis
      proof (cases "c < 32")
        case True
        then show ?thesis using "2.prems"(2) nq nb by simp
      next
        case nc: False
        define Y where "Y = cs @ w"
        have "lexString ((c # cs) @ w) = map_option (\<lambda>(s, r). (c # s, r)) (lexString Y)"
          using nq nb nc unfolding Y_def by simp
        with "2.prems"(2) have "map_option (\<lambda>(s, r). (c # s, r)) (lexString Y) = Some (t, r')"
          by simp
        then obtain t0 where l: "lexString Y = Some (t0, r')" and t: "t = c # t0"
          by auto
        note l = l [unfolded Y_def]
        from "2.IH"(3) [OF nq nb nc w l]
        obtain r where "lexString cs = Some (t0, r)" "r' = r @ w" by auto
        then show ?thesis using nq nb nc t by simp
      qed
    qed
  qed
qed

lemma lexInt_spaces: "\<forall>c\<in>set w. isTrimSpace c \<Longrightarrow> lexInt w = None"
  by (cases w) (simp_all add: lexInt_def trimSpace_inert)

lemma lexInt_append:
  assumes w: "\<forall>c\<in>set w. isTrimSpace c" and l: "lexInt (u @ w) = Some (n, r')"
  shows "\<exists>r. lexInt u = Some (n, r) \<and> r' = r @ w"
proof (cases u)
  case Nil
  then show ?thesis using l lexInt_spaces [OF w] by simp
next
  case (Cons c cs)
  then show ?thesis using l
    by (auto simp: lexInt_def takeWhile_digits_append [OF w] dropWhile_digits_append [OF w]
        split: if_splits)
qed

lemma lexFrac_spaces: "\<forall>c\<in>set w. isTrimSpace c \<Longrightarrow> lexFrac w = Some ([], w)"
  by (cases w) (simp_all add: lexFrac_def trimSpace_inert)

lemma lexFrac_append:
  assumes w: "\<forall>c\<in>set w. isTrimSpace c" and l: "lexFrac (u @ w) = Some (n, r')"
  shows "\<exists>r. lexFrac u = Some (n, r) \<and> r' = r @ w"
proof (cases u)
  case Nil
  then show ?thesis using l lexFrac_spaces [OF w] by (simp add: lexFrac_def)
next
  case (Cons c cs)
  then show ?thesis using l
    by (auto simp: lexFrac_def takeWhile_digits_append [OF w] dropWhile_digits_append [OF w]
        split: if_splits)
qed

lemma lexExpDigits_append:
  assumes w: "\<forall>c\<in>set w. isTrimSpace c" and l: "lexExpDigits p (u @ w) = Some (n, r')"
  shows "\<exists>r. lexExpDigits p u = Some (n, r) \<and> r' = r @ w"
  using l
  by (auto simp: lexExpDigits_def takeWhile_digits_append [OF w] dropWhile_digits_append [OF w]
      split: if_splits)

lemma lexExpDigits_spaces:
  "\<forall>c\<in>set w. isTrimSpace c \<Longrightarrow> lexExpDigits p w = None"
  by (cases w) (simp_all add: lexExpDigits_def trimSpace_inert)

lemma lexExp_spaces: "\<forall>c\<in>set w. isTrimSpace c \<Longrightarrow> lexExp w = Some ([], w)"
  by (cases w) (simp_all add: lexExp_def trimSpace_inert)

lemma lexExp_append:
  assumes w: "\<forall>c\<in>set w. isTrimSpace c" and l: "lexExp (u @ w) = Some (n, r')"
  shows "\<exists>r. lexExp u = Some (n, r) \<and> r' = r @ w"
proof (cases u)
  case Nil
  then show ?thesis using l lexExp_spaces [OF w] by (simp add: lexExp_def)
next
  case (Cons c cs)
  show ?thesis
  proof (cases "c = 101 \<or> c = 69")
    case False
    then show ?thesis using l Cons by (auto simp: lexExp_def)
  next
    case e: True
    show ?thesis
    proof (cases cs)
      case Nil
      have "lexExp (u @ w) = None"
      proof (cases w)
        case Nil
        then show ?thesis using \<open>u = c # cs\<close> \<open>cs = []\<close> e by (auto simp: lexExp_def)
      next
        case (Cons g w')
        then have g: "isTrimSpace g" using w by simp
        have "lexExpDigits [c] w = None" by (rule lexExpDigits_spaces [OF w])
        then show ?thesis using \<open>u = c # cs\<close> \<open>cs = []\<close> e Cons trimSpace_inert [OF g]
          by (auto simp: lexExp_def)
      qed
      then show ?thesis using l by simp
    next
      case (Cons g cs')
      show ?thesis
      proof (cases "g = 43 \<or> g = 45")
        case True
        then have "lexExpDigits [c, g] (cs' @ w) = Some (n, r')"
          using l \<open>u = c # cs\<close> Cons e by (auto simp: lexExp_def)
        from lexExpDigits_append [OF w this] show ?thesis
          using \<open>u = c # cs\<close> Cons e True by (auto simp: lexExp_def)
      next
        case False
        then have "lexExpDigits [c] (cs @ w) = Some (n, r')"
          using l \<open>u = c # cs\<close> Cons e by (auto simp: lexExp_def)
        from lexExpDigits_append [OF w this] show ?thesis
          using \<open>u = c # cs\<close> Cons e False by (auto simp: lexExp_def)
      qed
    qed
  qed
qed

lemma lexUnsigned_append:
  assumes w: "\<forall>c\<in>set w. isTrimSpace c" and l: "lexUnsigned (u @ w) = Some (n, r')"
  shows "\<exists>r. lexUnsigned u = Some (n, r) \<and> r' = r @ w"
proof -
  from l obtain i r1 f r2 e where
    i: "lexInt (u @ w) = Some (i, r1)" and f: "lexFrac r1 = Some (f, r2)"
    and e: "lexExp r2 = Some (e, r')" and n: "n = i @ f @ e"
    by (auto simp: lexUnsigned_def split: option.splits)
  from lexInt_append [OF w i] obtain q1 where q1: "lexInt u = Some (i, q1)" "r1 = q1 @ w" by auto
  from lexFrac_append [OF w f [unfolded q1(2)]] obtain q2 where
    q2: "lexFrac q1 = Some (f, q2)" "r2 = q2 @ w" by auto
  from lexExp_append [OF w e [unfolded q2(2)]] obtain q3 where
    q3: "lexExp q2 = Some (e, q3)" "r' = q3 @ w" by auto
  show ?thesis using q1 q2 q3 n by (simp add: lexUnsigned_def)
qed

lemma lexUnsigned_spaces: "\<forall>c\<in>set w. isTrimSpace c \<Longrightarrow> lexUnsigned w = None"
  by (simp add: lexUnsigned_def lexInt_spaces)

lemma lexNumber_append:
  assumes w: "\<forall>c\<in>set w. isTrimSpace c" and l: "lexNumber (u @ w) = Some (n, r')" and u: "u \<noteq> []"
  shows "\<exists>r. lexNumber u = Some (n, r) \<and> r' = r @ w"
proof -
  from u obtain c cs where c: "u = c # cs" by (cases u) auto
  show ?thesis
  proof (cases "c = 45")
    case True
    then obtain m where "lexUnsigned (cs @ w) = Some (m, r')" "n = c # m"
      using l c by (auto simp: lexNumber_def)
    then show ?thesis using lexUnsigned_append [OF w, of cs m r'] True c
      by (auto simp: lexNumber_def)
  next
    case False
    then show ?thesis using l c lexUnsigned_append [OF w, of u n r']
      by (auto simp: lexNumber_def)
  qed
qed

lemma take_literal_append:
  assumes w: "\<forall>c\<in>set w. isTrimSpace c" and k: "set k \<inter> Collect isTrimSpace = {}"
    and t: "take (length k) (u @ w) = k"
  shows "take (length k) u = k \<and> drop (length k) (u @ w) = drop (length k) u @ w"
proof -
  have "length k \<le> length u"
  proof (rule ccontr)
    assume "\<not> length k \<le> length u"
    then have l: "length u < length k" by simp
    have "length (take (length k) (u @ w)) = length k" using t by simp
    then have lk: "length k \<le> length (u @ w)" by simp
    from l have "k ! length u = (u @ w) ! length u" using t by (metis nth_take)
    also have "\<dots> = w ! 0" by (simp add: nth_append)
    finally have "k ! length u = w ! 0" .
    moreover have "w \<noteq> []" using l lk by auto
    then have "w ! 0 \<in> set w" by simp
    moreover have "k ! length u \<in> set k" using l by simp
    ultimately show False using w k by auto
  qed
  then show ?thesis using t by simp
qed

lemma lexToken_append:
  assumes w: "\<forall>c\<in>set w. isTrimSpace c" and l: "lexToken (u @ w) = Some (t, r')" and u: "u \<noteq> []"
  shows "\<exists>r. lexToken u = Some (t, r) \<and> r' = r @ w"
proof -
  from u obtain c cs where c: "u = c # cs" by (cases u) auto
  have lit: "\<And>k. set k \<inter> Collect isTrimSpace = {} \<Longrightarrow> take (length k) (u @ w) = k \<Longrightarrow>
      take (length k) u = k \<and> drop (length k) (u @ w) = drop (length k) u @ w"
    using take_literal_append [OF w] by blast
  have k1: "set (js ''true'') \<inter> Collect isTrimSpace = {}" "length (js ''true'') = 4"
    and k2: "set (js ''false'') \<inter> Collect isTrimSpace = {}" "length (js ''false'') = 5"
    and k3: "set (js ''null'') \<inter> Collect isTrimSpace = {}" "length (js ''null'') = 4"
    by (auto simp: js_def isTrimSpace_def)
  consider (punct) "c = LBRACE \<or> c = RBRACE \<or> c = LBRACKET \<or> c = RBRACKET \<or> c = COLON \<or> c = COMMA"
    | (str) "c = QUOTE" | (num) "c = 45 \<or> isDigit c"
    | (other) "\<not> (c = LBRACE \<or> c = RBRACE \<or> c = LBRACKET \<or> c = RBRACKET \<or> c = COLON \<or> c = COMMA)"
        "c \<noteq> QUOTE" "\<not> (c = 45 \<or> isDigit c)"
    by blast
  then show ?thesis
  proof cases
    case punct
    then show ?thesis using l c by (auto simp: lexToken_def split: if_splits)
  next
    case str
    then obtain s where "lexString (cs @ w) = Some (s, r')" "t = TString s"
      using l c by (auto simp: lexToken_def)
    then show ?thesis using lexString_append [OF w, of cs s r'] str c
      by (auto simp: lexToken_def)
  next
    case num
    then have nn: "c \<noteq> LBRACE" "c \<noteq> RBRACE" "c \<noteq> LBRACKET" "c \<noteq> RBRACKET" "c \<noteq> COLON"
      "c \<noteq> COMMA" "c \<noteq> QUOTE"
      by (auto simp: isDigit_def)
    have "lexToken (u @ w) = map_option (\<lambda>(n, r). (TNumber n, r)) (lexNumber (u @ w))"
      using c num nn by (simp add: lexToken_def)
    with l have "map_option (\<lambda>(n, r). (TNumber n, r)) (lexNumber (u @ w)) = Some (t, r')"
      by simp
    then obtain n where n: "lexNumber (u @ w) = Some (n, r')" "t = TNumber n"
      by auto
    have "lexToken u = map_option (\<lambda>(n, r). (TNumber n, r)) (lexNumber u)"
      using c num nn by (simp add: lexToken_def)
    then show ?thesis using lexNumber_append [OF w n(1) u] n(2) by auto
  next
    case other
    define v where "v = u @ w"
    have e: "lexToken v =
        (if take 4 v = js ''true'' then Some (TTrue, drop 4 v)
         else if take 5 v = js ''false'' then Some (TFalse, drop 5 v)
         else if take 4 v = js ''null'' then Some (TNull, drop 4 v)
         else None)"
      using other c by (simp add: lexToken_def v_def)
    have e': "lexToken u =
        (if take 4 u = js ''true'' then Some (TTrue, drop 4 u)
         else if take 5 u = js ''false'' then Some (TFalse, drop 5 u)
         else if take 4 u = js ''null'' then Some (TNull, drop 4 u)
         else None)"
      using other c by (simp add: lexToken_def)
    have ne: "js ''true'' \<noteq> take 4 (js ''false'')" "js ''true'' \<noteq> js ''null''"
      "js ''false'' \<noteq> js ''null'' @ x" for x
      by (simp_all add: js_def)
    show ?thesis
    proof (cases "take 4 v = js ''true''")
      case True
      from lit [OF k1(1)] True have "take 4 u = js ''true''" "drop 4 v = drop 4 u @ w"
        by (simp_all add: k1(2) v_def)
      then show ?thesis using l e e' True by (simp add: v_def)
    next
      case nt: False
      show ?thesis
      proof (cases "take 5 v = js ''false''")
        case True
        from lit [OF k2(1)] True have f: "take 5 u = js ''false''" "drop 5 v = drop 5 u @ w"
          by (simp_all add: k2(2) v_def)
        have "take 4 u \<noteq> js ''true''" using f(1) c by (auto simp: js_def)
        then show ?thesis using l e e' True nt f by (simp add: v_def)
      next
        case nf: False
        show ?thesis
        proof (cases "take 4 v = js ''null''")
          case True
          from lit [OF k3(1)] True have f: "take 4 u = js ''null''" "drop 4 v = drop 4 u @ w"
            by (simp_all add: k3(2) v_def)
          have "take 5 u \<noteq> js ''false''" using f(1) c by (auto simp: js_def)
          then show ?thesis using l e e' True nt nf f ne(2) by (simp add: v_def)
        next
          case False
          then show ?thesis using l e nt nf by (simp add: v_def)
        qed
      qed
    qed
  qed
qed

lemma tokenize_append:
  "\<forall>c\<in>set w. isTrimSpace c \<Longrightarrow> tokenize (u @ w) = Some ts \<Longrightarrow> tokenize u = Some ts"
proof (induction u arbitrary: ts rule: tokenize.induct)
  case 1
  then have "ts = []" using tokenize_spaces [of w ts] by simp
  then show ?case by simp
next
  case (2 c cs)
  note w = "2.prems"(1)
  show ?case
  proof (cases "isJsonSpace c")
    case True
    then show ?thesis using "2.prems" "2.IH"(1) by simp
  next
    case False
    have "tokenize ((c # cs) @ w) =
        (case lexToken ((c # cs) @ w) of None \<Rightarrow> None
         | Some (t, r) \<Rightarrow> map_option (\<lambda>ts. t # ts) (tokenize r))"
      using False by simp
    with "2.prems"(2) have "(case lexToken ((c # cs) @ w) of None \<Rightarrow> None
         | Some (t, r) \<Rightarrow> map_option (\<lambda>ts. t # ts) (tokenize r)) = Some ts"
      by simp
    then obtain t r' ts' where
      l: "lexToken ((c # cs) @ w) = Some (t, r')" and k: "tokenize r' = Some ts'" and ts: "ts = t # ts'"
      by (cases "lexToken ((c # cs) @ w)") auto
    from lexToken_append [OF w l] obtain r where
      r: "lexToken (c # cs) = Some (t, r)" "r' = r @ w" by auto
    from "2.IH"(2) [OF False r(1) refl w k [unfolded r(2)]] have "tokenize r = Some ts'" .
    then show ?thesis using False r(1) ts by simp
  qed
qed

lemma trim_decompose:
  "\<exists>w. dropWhile isTrimSpace s = trim s @ w \<and> (\<forall>c\<in>set w. isTrimSpace c)"
proof -
  define d where "d = dropWhile isTrimSpace s"
  have "rev d = takeWhile isTrimSpace (rev d) @ dropWhile isTrimSpace (rev d)" by simp
  then have "d = rev (dropWhile isTrimSpace (rev d)) @ rev (takeWhile isTrimSpace (rev d))"
    by (metis rev_append rev_rev_ident)
  moreover have "\<forall>c\<in>set (rev (takeWhile isTrimSpace (rev d))). isTrimSpace c"
    by (auto dest: set_takeWhileD)
  ultimately show ?thesis unfolding trim_def d_def by blast
qed

lemma tokenize_trim: "tokenize s = Some ts \<Longrightarrow> tokenize (trim s) = Some ts"
proof -
  assume "tokenize s = Some ts"
  then have d: "tokenize (dropWhile isTrimSpace s) = Some ts" by (rule tokenize_dropWhile)
  from trim_decompose [of s] obtain w where
    w: "dropWhile isTrimSpace s = trim s @ w" "\<forall>c\<in>set w. isTrimSpace c" by auto
  from tokenize_append [OF w(2) d [unfolded w(1)]] show ?thesis .
qed

lemma JSON_parse_trim: "JSON_parse s = Some v \<Longrightarrow> JSON_parse (trim s) = Some v"
  by (auto simp: JSON_parse_def dest: tokenize_trim split: option.splits)

section \<open>The repair engine on valid JSON\<close>

text \<open>
  C3. The claim: for every string \<open>s\<close> that is valid JSON, \<open>parseAndRepairJSON\<close> succeeds
  with the value \<open>JSON.parse(s)\<close>. The code refuses a valid object that holds an escaped
  double quote inside a string. The object below, with the key \<open>a\<close> and a string of one
  double quote as its value, has five double-quote characters, one of them escaped.
  \<open>parseAndRepairJSON\<close> counts all five, finds the count odd and calls
  \<open>fixUnterminatedStrings\<close>, which honours the escape, finds every string closed and
  returns the text as it is; the count is odd as before, and the function throws its
  "malformed JSON" error where \<open>JSON.parse\<close> returns the object.
\<close>

theorem escaped_quote_refused:
  \<open>JSON_parse (js ''{"a":"'' @ [BACKSLASH, QUOTE] @ js ''"}'')
     = Some (JObject [(js ''a'', JString [QUOTE])])
   \<and> quoteCount (trim (js ''{"a":"'' @ [BACKSLASH, QUOTE] @ js ''"}'')) = 5
   \<and> fixUnterminatedStrings (trim (js ''{"a":"'' @ [BACKSLASH, QUOTE] @ js ''"}''))
       = js ''{"a":"'' @ [BACKSLASH, QUOTE] @ js ''"}''
   \<and> parseAndRepairJSON (js ''{"a":"'' @ [BACKSLASH, QUOTE] @ js ''"}'') = Inl MalformedJSON\<close>
  by (simp add: parseAndRepairJSON_def closeObject_def balanceQuotes_def trim_def
      isTrimSpace_def endsWith_def lastIndexOf_def balanceRepair_def quoteCount_def
      fixUnterminatedStrings_def scanInit_def scanStep_def
      JSON_parse_def lexToken_def isJsonSpace_def isDigit_def lexNumber_def lexUnsigned_def
      lexInt_def lexFrac_def lexExp_def unescape_def js_def)

text \<open>
  Two arrays, valid JSON as well, are refused too: an array of numbers as incomplete, and
  an array that holds an object, which is cut at its last \<open>}\<close>, as invalid.
\<close>

lemma valid_array_refused:
  \<open>JSON_parse (js ''[1,2]'') = Some (JArray [JNumber (js ''1''), JNumber (js ''2'')])
   \<and> parseAndRepairJSON (js ''[1,2]'') = Inl IncompleteJSON
   \<and> JSON_parse (js ''[{"a":1}]'') = Some (JArray [JObject [(js ''a'', JNumber (js ''1''))]])
   \<and> parseAndRepairJSON (js ''[{"a":1}]'') = Inl InvalidJSON\<close>
  by (simp add: parseAndRepairJSON_def closeObject_def balanceQuotes_def parseWithRetry_def
      trim_def isTrimSpace_def endsWith_def lastIndexOf_def balanceRepair_def quoteCount_def
      fixUnterminatedStrings_def scanInit_def scanStep_def
      JSON_parse_def lexToken_def isJsonSpace_def isDigit_def lexNumber_def lexUnsigned_def
      lexInt_def lexFrac_def lexExp_def unescape_def js_def)

text \<open>
  The repair engine does leave alone every valid JSON text whose trimmed form ends with
  \<open>}\<close> and holds an even number of double-quote characters: there no repair branch runs
  and the value is that of \<open>JSON.parse\<close>.
\<close>

lemma repair_noop_on_valid_object:
  assumes "JSON_parse s = Some v"
    and "endsWith (trim s) RBRACE"
    and "even (quoteCount (trim s))"
  shows "parseAndRepairJSON s = Inr v"
  using assms JSON_parse_trim [OF assms(1)]
  by (simp add: parseAndRepairJSON_def closeObject_def balanceQuotes_def parseWithRetry_def)

section \<open>The repair engine on truncated input\<close>

text \<open>
  C4. The claim: for the input \<open>{"a":"b","c":"d\<close>, an object cut inside a string value,
  \<open>parseAndRepairJSON\<close> closes the dangling string and returns the object. The code does
  not: the text holds no \<open>}\<close>, so the bracket-balance branch runs, its backward scan goes
  negative at the opening brace and cuts the text back to \<open>{\<close>, nothing is appended, and
  the function throws its "incomplete JSON" error before \<open>fixUnterminatedStrings\<close> or
  \<open>JSON.parse\<close> is reached.
\<close>

theorem truncated_string_value_throws:
  \<open>balanceRepair (js ''{"a":"b","c":"d'') = js ''{''
   \<and> parseAndRepairJSON (js ''{"a":"b","c":"d'') = Inl IncompleteJSON\<close>
  by (simp add: parseAndRepairJSON_def closeObject_def trim_def isTrimSpace_def endsWith_def
      lastIndexOf_def balanceRepair_def js_def)

text \<open>
  C5. The claim: for the input \<open>{"a":[1,2,3\<close> the engine appends the closers \<open>]}\<close> and
  returns the object. The code does not: the backward scan counts closers up and openers
  down, so it goes negative at the unclosed \<open>[\<close>, the text is cut back to \<open>{"a":[\<close>, the
  string of closers is empty, and the function throws its "incomplete JSON" error.
\<close>

theorem unbalanced_brackets_throws:
  \<open>balanceScan (rev (js ''{"a":[1,2,3'')) 0 0 = (0, - 1, Some 6)
   \<and> balanceRepair (js ''{"a":[1,2,3'') = js ''{"a":[''
   \<and> parseAndRepairJSON (js ''{"a":[1,2,3'') = Inl IncompleteJSON\<close>
  by (simp add: parseAndRepairJSON_def closeObject_def trim_def isTrimSpace_def endsWith_def
      lastIndexOf_def balanceRepair_def js_def)

section \<open>The role assigner and the discoverer of the body\<close>

text \<open>
  C6. The claim: in the branch where the discoverer of the body must differ from the
  killer, the index is drawn again until it differs, so \<open>discoveredByPlayerIndex\<close> never
  equals \<open>randomKillerIndex\<close> there. The code draws once: with the draws \<open>0\<close>, \<open>1/2\<close>, \<open>0\<close> and
  three players the killer is player 1, \<open>discoveredByIsKiller\<close> is false, and the
  discoverer is player 1 as well.
\<close>

theorem discoverer_equals_killer:
  "assignRoles (\<lambda>i. if i = 1 then 1 / 2 else 0) 3
     = \<lparr>randomKillerIndex = 1, discoveredByIsKiller = False, discoveredByPlayerIndex = 1\<rparr>"
  by (simp add: assignRoles_def randomIndex_def number_defs)

section \<open>The score of a match\<close>

text \<open>
  C7. The claim: the score adds 10 for equal occupations, 3 for a substring match, 2 for
  equal genders, 2 for ages at most 1 apart and 1 for ages at most 3 apart. The code adds
  5, not 10, for equal occupations: a player with the role \<open>Chef\<close> and a record with the
  occupation \<open>chef\<close>, with no gender and no age on the player, score 5.
\<close>

theorem equal_occupation_scores_five:
  "scoreMatch exampleEngine chefPlayer chefRecord = Inr 5"
  by (simp add: scoreMatch_def genRoleOf_def origOccEsOf_def origOccEnOf_def orEmptyToString_def
      exampleEngine_def asciiLower_def chefPlayer_def chefRecord_def trim_def isTrimSpace_def
      js_def)

text \<open>
  C7, amended. For every generated player that is not \<open>null\<close> and whose role converts to
  a string without an error, the score is the sum of three bonuses. Role: 5 when the
  role, as a string, lower-cased and trimmed, is not empty and equals the Spanish or the
  English occupation of the record, lower-cased and trimmed; otherwise 3 when it is not
  empty and is a part of the Spanish occupation or has it as a part; otherwise 0. Where
  the Spanish occupation of the record is the empty string, the text \<open>[object Object]\<close>
  stands for it in these comparisons. Gender: 2 when the player's gender is a non-empty
  string equal to the record's. Age, when both ages are numbers: 2 when their
  difference, taken in double arithmetic, is at most 1 in absolute value, otherwise 1
  when it is at most 3.
\<close>

theorem scoreMatch_sum:
  assumes "genRoleOf eng gen = Inr genRole"
  shows "scoreMatch eng gen orig =
           Inr (roleBonus genRole (origOccEsOf eng orig) (origOccEnOf eng orig)
                + genderBonus (propOf gen (js ''gender'')) (gender orig)
                + ageBonus (propOf gen (js ''age'')) (approx_age orig))"
proof -
  define E where "E = origOccEsOf eng orig"
  define N where "N = origOccEnOf eng orig"
  from assms have "gen \<noteq> JNull"
    by (auto simp: genRoleOf_def)
  then obtain g a where g: "getProp gen (js ''gender'') = Inr g"
    and a: "getProp gen (js ''age'') = Inr a"
    by (cases gen) auto
  have s1: "(if genRole \<noteq> [] \<and> (genRole = E \<or> genRole = N) then (0::int) + 5
             else if genRole \<noteq> [] \<and> (includesStr E genRole \<or> includesStr genRole E)
             then 0 + 3 else 0) = roleBonus genRole E N"
    by (simp add: roleBonus_def)
  have s2: "(case g of
               Some (JString t) \<Rightarrow>
                 if t \<noteq> [] \<and> gender orig \<noteq> [] \<and> t = gender orig then x + 2 else x
             | _ \<Rightarrow> x) = x + genderBonus g (gender orig)" for x :: int
    by (auto simp: genderBonus_def split: option.splits json.splits)
  have s3: "(case a of
               Some (JNumber n) \<Rightarrow>
                 (case approx_age orig of
                    Some b \<Rightarrow>
                      if numberLe (numberAbs (numberMinus (numberValue n) b)) (Finite 1) then x + 2
                      else if numberLe (numberAbs (numberMinus (numberValue n) b)) (Finite 3)
                      then x + 1 else x
                  | None \<Rightarrow> x)
             | _ \<Rightarrow> x) = x + ageBonus a (approx_age orig)" for x :: int
    by (auto simp: ageBonus_def split: option.splits json.splits)
  have "scoreMatch eng gen orig =
      Inr (roleBonus genRole E N + genderBonus g (gender orig) + ageBonus a (approx_age orig))"
    unfolding scoreMatch_def assms Let_def E_def [symmetric] N_def [symmetric] g a
    by (simp only: s1 s2 s3 sum.case)
  then show ?thesis by (simp add: propOf_def g a E_def N_def)
qed

theorem scoreMatch_sum_witness:
  "genRoleOf exampleEngine chefPlayer = Inr (js ''chef'')
   \<and> scoreMatch exampleEngine chefPlayer chefRecord =
       Inr (roleBonus (js ''chef'') (origOccEsOf exampleEngine chefRecord)
              (origOccEnOf exampleEngine chefRecord)
            + genderBonus (propOf chefPlayer (js ''gender'')) (gender chefRecord)
            + ageBonus (propOf chefPlayer (js ''age'')) (approx_age chefRecord))"
proof -
  have r: "genRoleOf exampleEngine chefPlayer = Inr (js ''chef'')"
    by (simp add: genRoleOf_def orEmptyToString_def exampleEngine_def asciiLower_def
        chefPlayer_def trim_def isTrimSpace_def js_def)
  from scoreMatch_sum [OF r] r show ?thesis by simp
qed

text \<open>
  Three corners of the rule. A record with an empty Spanish occupation gives the role
  \<open>Chef\<close> no bonus, though the empty string is a part of every role, and gives the role
  \<open>Object\<close> the bonus 3. The age literal \<open>44.0000000000000001\<close> is the double \<open>44\<close>, at most
  3 from the age \<open>41\<close>.
\<close>

lemma empty_spanish_occupation:
  "scoreMatch exampleEngine chefPlayer
     (chefRecord\<lparr>occupation := \<lparr>en = js ''waiter'', es = []\<rparr>\<rparr>) = Inr 0"
  "scoreMatch exampleEngine (JObject [(js ''role'', JString (js ''Object''))])
     (chefRecord\<lparr>occupation := \<lparr>en = js ''waiter'', es = []\<rparr>\<rparr>) = Inr 3"
  by (simp_all add: match_defs exampleEngine_def asciiLower_def chefPlayer_def chefRecord_def
      trim_def isTrimSpace_def js_def)

lemma age_literal_rounded:
  "numberValue (js ''44.0000000000000001'') = Finite 44"
  "ageBonus (Some (JNumber (js ''44.0000000000000001''))) (Some (Finite 41)) = 1"
  by (simp_all add: ageBonus_def numberValue_def decimalValue_def unsignedValue_def
      digitsValue_def scale10_def exponentValue_def isDigit_def number_defs js_def)

section \<open>The check of the scenario\<close>

text \<open>
  C10. For every request whose body has both \<open>scenario\<close> and \<open>customScenario\<close>, or neither
  of them, the handler answers with status 400 and an error message, makes no catalog
  query and no generation call, and builds no document. A body has a field when the field
  is truthy, which is what the two tests of the handler look at: \<open>scenario\<close> is a string
  that is not empty, \<open>customScenario\<close> is an object.
\<close>

theorem scenario_check_rejects:
  assumes "strTruthy (scenario body) \<and> customScenario body \<noteq> None
           \<or> \<not> strTruthy (scenario body) \<and> customScenario body = None"
  shows "\<exists>msg. handler eng env body = (Http400 msg, [])"
  using assms by (auto simp: handler_def)

theorem scenario_check_rejects_witness:
  "(strTruthy (scenario bothScenariosBody) \<and> customScenario bothScenariosBody \<noteq> None
    \<or> \<not> strTruthy (scenario bothScenariosBody) \<and> customScenario bothScenariosBody = None)
   \<and> (\<exists>msg. handler exampleEngine catalogDown bothScenariosBody = (Http400 msg, []))"
proof -
  have h: "strTruthy (scenario bothScenariosBody) \<and> customScenario bothScenariosBody \<noteq> None
    \<or> \<not> strTruthy (scenario bothScenariosBody) \<and> customScenario bothScenariosBody = None"
    by (simp add: bothScenariosBody_def strTruthy_def js_def)
  from scenario_check_rejects [OF h] h show ?thesis by blast
qed

section \<open>The culprit\<close>

text \<open>
  C1. The claim: in every finished document exactly one player has \<open>isKiller == true\<close>,
  and its identifier is \<open>hiddenContext.killerId\<close>, the index chosen before any generation
  call. The handler does not see to it. It checks the number of players of every batch
  and of the whole run, and after the last stage it sets \<open>hiddenContext.killerId\<close> to
  \<open>player-k\<close>; it neither checks nor writes the \<open>isKiller\<close> flags of the players and their
  identifiers. In the run below, a request for two players, the generation service
  marks both players as the killer, both under the identifier \<open>x\<close>: the handler answers
  with status 200 and a document with two culprits, neither of which is \<open>player-1\<close>, the
  value of \<open>killerId\<close>.
\<close>

theorem two_culprits_in_document:
  "handler exampleEngine driftEnv twoPlayersBody = (Http200 driftDocument, driftTrace)
   \<and> culprits (players driftDocument) = [Some (JString (js ''x'')), Some (JString (js ''x''))]
   \<and> propOf (hiddenContext driftDocument) (js ''killerId'') = Some (JString (js ''player-1''))"
  using driftEnv_run by (simp add: culprits_def driftDocument_def propOf_def js_def)

section \<open>The identifiers\<close>

text \<open>
  C2. The claim: the identifiers of the players of a successful run for \<open>N\<close> players are
  exactly \<open>player-1\<close>, ..., \<open>player-N\<close>, computed by the orchestrator and not taken from the
  output of the generation service. The handler computes these identifiers, but only to
  write them into the prompts of the batch calls: it never writes them on the players it
  gets back and never checks the identifiers of these players. In the run below the
  service returns two players with the identifier \<open>x\<close>, and so has the document of the
  answer with status 200.
\<close>

theorem service_identifiers_in_document:
  "handler exampleEngine driftEnv twoPlayersBody = (Http200 driftDocument, driftTrace)
   \<and> propOf (players driftDocument ! 0) (js ''id'') = Some (JString (js ''x''))
   \<and> propOf (players driftDocument ! 1) (js ''id'') = Some (JString (js ''x''))"
  using driftEnv_run by (simp add: driftDocument_def propOf_def js_def)

section \<open>What a finished document holds\<close>

text \<open>
  What every run that answers with status 200 does hold: \<open>hiddenContext.killerId\<close> is
  \<open>player-k\<close> for the index \<open>k\<close> the role assigner drew, whatever the last stage returned;
  the document has as many players as the request asked for; the checklists of
  identifiers handed to the batch calls are, in the order of the calls, \<open>1, ..., N\<close>; and
  the \<open>isKiller\<close> flags and the identifiers of the players are those of the replies to
  the batch calls.
\<close>

lemma finished_document:
  assumes "handler eng env body = (Http200 doc, tr)"
  shows "propOf (hiddenContext doc) (js ''killerId'')
           = Some (JString (playerId (randomKillerIndex (assignRoles (random env) (suspects body)))))"
    and "int (length (players doc)) = suspects body"
    and "concat (map checklist (chatStages tr)) = [1 .. suspects body]"
    and "\<exists>gen. generatedPlayers env body = Inr gen
           \<and> map (\<lambda>p. propOf p (js ''isKiller'')) (players doc)
               = map (\<lambda>p. propOf p (js ''isKiller'')) gen
           \<and> map (\<lambda>p. propOf p (js ''id'')) (players doc)
               = map (\<lambda>p. propOf p (js ''id'')) gen
           \<and> culprits (players doc) = culprits gen"
proof -
  define k where "k = randomKillerIndex (assignRoles (random env) (suspects body))"
  from handler_success [OF assms] obtain wpn core hc where
    "buildResponse body (randomKillerIndex (assignRoles (random env) (suspects body)))
       wpn core (players doc) hc = Inr doc"
    by (elim exE conjE) (rule that)
  from buildResponse_fields(2) [OF this [folded k_def]] spreadKillerId_killerId
  have "propOf (hiddenContext doc) (js ''killerId'') = Some (JString (playerId k))" by auto
  then show "propOf (hiddenContext doc) (js ''killerId'')
           = Some (JString (playerId (randomKillerIndex (assignRoles (random env) (suspects body)))))"
    by (simp add: k_def)
  from handler_players [OF assms] obtain sus gen where
    g: "generatedPlayers env body = Inr gen"
    and p: "postProcessPlayers eng body sus gen = Inr (players doc)" by blast
  from postProcessPlayers_frame [OF p] names_differ
  have f: "map (\<lambda>p. propOf p (js ''isKiller'')) (players doc) = map (\<lambda>p. propOf p (js ''isKiller'')) gen"
    "map (\<lambda>p. propOf p (js ''id'')) (players doc) = map (\<lambda>p. propOf p (js ''id'')) gen"
    and n: "int (length gen) = suspects body"
    by blast+
  from f(2) have "length (players doc) = length gen" by (rule map_eq_imp_length_eq)
  with n show "int (length (players doc)) = suspects body" by simp
  from g f culprits_cong [OF f]
  show "\<exists>gen. generatedPlayers env body = Inr gen
           \<and> map (\<lambda>p. propOf p (js ''isKiller'')) (players doc)
               = map (\<lambda>p. propOf p (js ''isKiller'')) gen
           \<and> map (\<lambda>p. propOf p (js ''id'')) (players doc)
               = map (\<lambda>p. propOf p (js ''id'')) gen
           \<and> culprits (players doc) = culprits gen"
    by blast
  from handler_success [OF assms] obtain d w2 gen' w3 where
    lo: "playersLoop env body (randomKillerIndex (assignRoles (random env) (suspects body)))
              0 [] w2 = (Inr gen', w3)"
    and st: "chatStages (events w2) = [CoreStage d]"
    and tr: "tr = events w3 @ [ChatCall (HiddenStage
                  (randomKillerIndex (assignRoles (random env) (suspects body))))]"
    by (elim exE conjE) (rule that)
  from playersLoop_checklists [OF lo] obtain sts where
    "events w3 = events w2 @ map ChatCall sts"
    "concat (map checklist sts) = [int 0 + 1 .. suspects body]" by blast
  then show "concat (map checklist (chatStages tr)) = [1 .. suspects body]"
    using tr st by (simp add: chatStages_append chatStages_map)
qed

section \<open>A batch of the wrong size\<close>

text \<open>
  C8. Whenever a call of a run is a batch call for exactly \<open>k\<close> players and the reply to it
  parses to an object whose \<open>players\<close> array has another length, the handler answers with
  status 500 and the count-mismatch error of that batch, and the call is the last call of
  the run: no later batch and no last stage is called, no part of the batch is kept,
  and no document is built. (The handler persists nothing in any case.)
\<close>

theorem batch_count_mismatch_is_terminal:
  assumes run: "handler eng env body = (resp, tr)"
    and i: "i < length (chatStages tr)"
    and call: "chatStages tr ! i = BatchStage b k idx killer"
    and reply: "chat env i = Reply (Some response)"
    and parsed: "parseAndRepairJSON response = Inr parsed"
    and arr: "getProp parsed (js ''players'') = Inr (Some (JArray xs))"
    and len: "int (length xs) \<noteq> k"
  shows "resp = Http500 (js ''Failed to generate impostor case'')
                  (BatchCountMismatch (length xs) k)
         \<and> Suc i = length (chatStages tr)
         \<and> last tr = ChatCall (BatchStage b k idx killer)"
proof -
  have ne: "response \<noteq> []" using parsed parseAndRepairJSON_empty by auto
  have bad: "batchReply env i k = Inl (BatchCountMismatch (length xs) k)"
    using reply ne parsed arr len by (simp add: batchReply_def checkPlayers_def)
  from i have "tr \<noteq> []" by auto
  then obtain r w where g: "generateCase eng env body = (r, w)" and tr: "tr = events w"
    and resp: "resp = (case r of Inl e \<Rightarrow> Http500 (js ''Failed to generate impostor case'') e
                       | Inr d \<Rightarrow> Http200 d)"
    using run by (auto simp: handler_def split: if_splits prod.splits sum.splits)
  have n1: "chatStages (events w) \<noteq> []" using i tr by auto
  have n2: "\<not> (\<exists>d. chatStages (events w) = [CoreStage d])"
    using i call tr by auto
  from generateCase_calls [OF g] n1 n2
  have "\<exists>d w2 rl w3 sts tail.
          playersLoop env body (randomKillerIndex (assignRoles (random env) (suspects body)))
            0 [] w2 = (rl, w3)
          \<and> chatCalls w2 = 1
          \<and> events w3 = events w2 @ map ChatCall sts
          \<and> chatStages (events w2) = [CoreStage d]
          \<and> events w = events w3 @ tail
          \<and> (tail = [] \<or> (\<exists>k. tail = [ChatCall (HiddenStage k)]))
          \<and> (\<forall>e. rl = Inl e \<longrightarrow> r = Inl e \<and> tail = [])
          \<and> (\<forall>j<length sts. \<exists>b' k'.
                sts ! j = BatchStage b' k' (batchIndices b' k' (suspects body))
                            (randomKillerIndex (assignRoles (random env) (suspects body)))
                \<and> (\<forall>e. batchReply env (Suc j) k' = Inl e \<longrightarrow>
                      Suc j = length sts \<and> rl = Inl e))"
    by blast
  then obtain d w2 rl w3 sts tail where c:
    "playersLoop env body (randomKillerIndex (assignRoles (random env) (suspects body)))
            0 [] w2 = (rl, w3)
          \<and> chatCalls w2 = 1
          \<and> events w3 = events w2 @ map ChatCall sts
          \<and> chatStages (events w2) = [CoreStage d]
          \<and> events w = events w3 @ tail
          \<and> (tail = [] \<or> (\<exists>k. tail = [ChatCall (HiddenStage k)]))
          \<and> (\<forall>e. rl = Inl e \<longrightarrow> r = Inl e \<and> tail = [])
          \<and> (\<forall>j<length sts. \<exists>b' k'.
                sts ! j = BatchStage b' k' (batchIndices b' k' (suspects body))
                            (randomKillerIndex (assignRoles (random env) (suspects body)))
                \<and> (\<forall>e. batchReply env (Suc j) k' = Inl e \<longrightarrow>
                      Suc j = length sts \<and> rl = Inl e))"
    by (elim exE) (rule that, assumption)
  then have ev3: "events w3 = events w2 @ map ChatCall sts"
    and st2: "chatStages (events w2) = [CoreStage d]"
    and ev: "events w = events w3 @ tail"
    and tail: "tail = [] \<or> (\<exists>k. tail = [ChatCall (HiddenStage k)])"
    and fail: "\<forall>e. rl = Inl e \<longrightarrow> r = Inl e \<and> tail = []"
    and bat: "\<forall>j<length sts. \<exists>b' k'.
                sts ! j = BatchStage b' k' (batchIndices b' k' (suspects body))
                            (randomKillerIndex (assignRoles (random env) (suspects body)))
                \<and> (\<forall>e. batchReply env (Suc j) k' = Inl e \<longrightarrow>
                      Suc j = length sts \<and> rl = Inl e)"
    by simp_all
  have stages: "chatStages tr = CoreStage d # sts @ chatStages tail"
    using tr ev ev3 st2 by (simp add: chatStages_append chatStages_map)
  from call stages obtain j where j: "i = Suc j" by (cases i) auto
  have jl: "j < length sts"
  proof (rule ccontr)
    assume "\<not> j < length sts"
    then have "(sts @ chatStages tail) ! j = chatStages tail ! (j - length sts)"
      by (simp add: nth_append)
    moreover have "j - length sts < length (chatStages tail)" using i stages j \<open>\<not> j < length sts\<close>
      by simp
    ultimately show False using call stages j tail by auto
  qed
  then have sj: "sts ! j = BatchStage b k idx killer"
    using call stages j by (simp add: nth_append)
  from bat jl sj bad j have last: "Suc j = length sts" and rl: "rl = Inl (BatchCountMismatch (length xs) k)"
    by auto
  from fail rl have r: "r = Inl (BatchCountMismatch (length xs) k)" and t0: "tail = []" by auto
  have "sts \<noteq> []" using jl by auto
  then have "last tr = ChatCall (last sts)"
    using tr ev ev3 t0 by (simp add: last_map)
  moreover have "length sts - 1 = j" using last by simp
  then have "last sts = sts ! j" using \<open>sts \<noteq> []\<close> by (simp add: last_conv_nth)
  ultimately show ?thesis using resp r sj stages j last t0 by simp
qed

theorem batch_count_mismatch_is_terminal_witness:
  \<open>handler exampleEngine shortBatchEnv fourPlayersBody
     = (Http500 (js ''Failed to generate impostor case'') (BatchCountMismatch 2 1), shortBatchTrace)
   \<and> 2 < length (chatStages shortBatchTrace)
   \<and> chatStages shortBatchTrace ! 2 = BatchStage 3 1 [4] 1
   \<and> chat shortBatchEnv 2 = Reply (Some (js ''{"players":[{"id":"player-4"},{"id":"player-5"}]}''))
   \<and> parseAndRepairJSON (js ''{"players":[{"id":"player-4"},{"id":"player-5"}]}'')
       = Inr (JObject [(js ''players'', JArray shortBatchPlayers)])
   \<and> getProp (JObject [(js ''players'', JArray shortBatchPlayers)]) (js ''players'')
       = Inr (Some (JArray shortBatchPlayers))
   \<and> int (length shortBatchPlayers) \<noteq> 1
   \<and> Suc 2 = length (chatStages shortBatchTrace)
   \<and> last shortBatchTrace = ChatCall (BatchStage 3 1 [4] 1)\<close>
proof -
  define response where \<open>response = js ''{"players":[{"id":"player-4"},{"id":"player-5"}]}''\<close>
  have i: "2 < length (chatStages shortBatchTrace)" by (simp add: shortBatchTrace_def)
  have c: "chatStages shortBatchTrace ! 2 = BatchStage 3 1 [4] 1"
    by (simp add: shortBatchTrace_def)
  have r: "chat shortBatchEnv 2 = Reply (Some response)"
    by (simp add: shortBatchEnv_def shortBatchReplies_def response_def)
  have p: "parseAndRepairJSON response = Inr (JObject [(js ''players'', JArray shortBatchPlayers)])"
    by (simp add: parse_defs response_def shortBatchPlayers_def)
  have a: "getProp (JObject [(js ''players'', JArray shortBatchPlayers)]) (js ''players'')
      = Inr (Some (JArray shortBatchPlayers))"
    by simp
  have l: "int (length shortBatchPlayers) \<noteq> 1" by (simp add: shortBatchPlayers_def)
  from batch_count_mismatch_is_terminal [OF shortBatch_run i c r p a l]
  have "Suc 2 = length (chatStages shortBatchTrace)
      \<and> last shortBatchTrace = ChatCall (BatchStage 3 1 [4] 1)"
    by simp
  with shortBatch_run i c r p a l show ?thesis unfolding response_def by simp
qed

section \<open>The photos\<close>

text \<open>
  C9. The matching of photos has no input but the engine, the request, the catalog
  records and the generated players: two successful runs on the same request that get
  the same records from the catalog and the same players from the generation service
  return the same players, photos included, whatever their random draws, their weapons
  and their other replies are.
\<close>

theorem photo_matching_deterministic:
  assumes "handler eng env1 body = (Http200 doc1, tr1)"
    and "handler eng env2 body = (Http200 doc2, tr2)"
    and "getSuspectsForScene env1 (suspectOptions body)
           = getSuspectsForScene env2 (suspectOptions body)"
    and "generatedPlayers env1 body = generatedPlayers env2 body"
  shows "players doc1 = players doc2"
proof -
  from handler_players [OF assms(1)] obtain sus1 gen1 where
    a: "getSuspectsForScene env1 (suspectOptions body) = Inr sus1"
    "generatedPlayers env1 body = Inr gen1"
    "postProcessPlayers eng body sus1 gen1 = Inr (players doc1)" by blast
  from handler_players [OF assms(2)] obtain sus2 gen2 where
    b: "getSuspectsForScene env2 (suspectOptions body) = Inr sus2"
    "generatedPlayers env2 body = Inr gen2"
    "postProcessPlayers eng body sus2 gen2 = Inr (players doc2)" by blast
  from a b assms(3,4) have "sus1 = sus2" "gen1 = gen2" by simp_all
  with a(3) b(3) show ?thesis by simp
qed

theorem photo_matching_deterministic_witness:
  "handler exampleEngine goodEnv fourPlayersBody = (Http200 (goodDocument 2), goodTrace 2)
   \<and> handler exampleEngine (goodEnv\<lparr>random := (\<lambda>i. 3 / 4)\<rparr>) fourPlayersBody
       = (Http200 (goodDocument 4), goodTrace 4)
   \<and> getSuspectsForScene goodEnv (suspectOptions fourPlayersBody)
       = getSuspectsForScene (goodEnv\<lparr>random := (\<lambda>i. 3 / 4)\<rparr>) (suspectOptions fourPlayersBody)
   \<and> generatedPlayers goodEnv fourPlayersBody
       = generatedPlayers (goodEnv\<lparr>random := (\<lambda>i. 3 / 4)\<rparr>) fourPlayersBody
   \<and> players (goodDocument 2) = players (goodDocument 4)"
proof -
  have s: "getSuspectsForScene goodEnv (suspectOptions fourPlayersBody)
       = getSuspectsForScene (goodEnv\<lparr>random := (\<lambda>i. 3 / 4)\<rparr>) (suspectOptions fourPlayersBody)"
    by simp
  have g: "generatedPlayers goodEnv fourPlayersBody
       = generatedPlayers (goodEnv\<lparr>random := (\<lambda>i. 3 / 4)\<rparr>) fourPlayersBody"
    by (simp add: generatedPlayers_def repliedPlayers_random)
  from photo_matching_deterministic [OF goodEnv_run goodEnv_run' s g] goodEnv_run goodEnv_run' s g
  show ?thesis by simp
qed

end
